theory Spec2Isabelle
  imports Main
begin

section \<open>JavaScript values that the retry engine inspects\<close>

text \<open>
  The engine of \<^verbatim>\<open>src/index.ts\<close> never looks inside a value beyond a handful of
  run-time tests: \<^verbatim>\<open>instanceof Error\<close>, \<^verbatim>\<open>instanceof AbortError\<close>,
  \<^verbatim>\<open>instanceof TypeError\<close>, the \<^verbatim>\<open>name\<close>, \<^verbatim>\<open>message\<close> and \<^verbatim>\<open>stack\<close>
  properties, and the string conversion of a template literal. A value is therefore one of
  \<^item> a value that is not an \<^verbatim>\<open>Error\<close> and that a template literal can convert to a
    string (strings, numbers, booleans, \<^verbatim>\<open>null\<close>, \<^verbatim>\<open>undefined\<close>, plain objects),
    kept as that string, together with its \<^verbatim>\<open>message\<close> property when it has one (a
    thrown \<^verbatim>\<open>{message: "hi"}\<close>), as the string that the constructor of \<^verbatim>\<open>Error\<close>
    makes of it;
  \<^item> a symbol, which is not an \<^verbatim>\<open>Error\<close> either and which a template literal refuses
    to convert;
  \<^item> an \<^verbatim>\<open>Error\<close> object that is neither an \<^verbatim>\<open>AbortError\<close> nor a
    \<^verbatim>\<open>FailedAttemptError\<close>, with the class that decides \<^verbatim>\<open>instanceof TypeError\<close>
    (every class outside the \<^verbatim>\<open>TypeError\<close> family behaves as \<^verbatim>\<open>Error\<close> here);
  \<^item> an \<^verbatim>\<open>AbortError\<close> (lines 4-20) with its \<^verbatim>\<open>originalError\<close>;
  \<^item> a \<^verbatim>\<open>FailedAttemptError\<close> (lines 22-30) with its \<^verbatim>\<open>cause\<close>,
    \<^verbatim>\<open>attemptNumber\<close> and \<^verbatim>\<open>retriesLeft\<close>.
\<close>

datatype errclass = ErrorClass | TypeErrorClass

datatype jsval =
    NonError (rendering: string) (property_message: "string option")
  | SymbolValue (description: string)
  | ErrorObject (eclass: errclass) (ename: string) (emessage: string) (estack: "string option")
  | AbortError (amessage: string) (originalError: jsval)
  | FailedAttemptError (fmessage: string) (cause: jsval) (attemptNumber: nat) (retriesLeft: int)

text \<open>What a call or an awaited promise gives back: a value, or a thrown value.\<close>

datatype 'a completion = Returns 'a | Throws jsval

fun instanceofError :: "jsval \<Rightarrow> bool" where
  "instanceofError (NonError _ _) = False"
| "instanceofError (SymbolValue _) = False"
| "instanceofError (ErrorObject _ _ _ _) = True"
| "instanceofError (AbortError _ _) = True"
| "instanceofError (FailedAttemptError _ _ _ _) = True"

fun instanceofAbortError :: "jsval \<Rightarrow> bool" where
  "instanceofAbortError (AbortError _ _) = True"
| "instanceofAbortError _ = False"

fun instanceofTypeError :: "jsval \<Rightarrow> bool" where
  "instanceofTypeError (ErrorObject c _ _ _) = (c = TypeErrorClass)"
| "instanceofTypeError _ = False"

text \<open>The \<^verbatim>\<open>name\<close> property: \<^verbatim>\<open>AbortError\<close> sets it (line 17), \<^verbatim>\<open>FailedAttemptError\<close>
  inherits \<^verbatim>\<open>Error\<close>'s.\<close>

fun name_of :: "jsval \<Rightarrow> string option" where
  "name_of (ErrorObject _ n _ _) = Some n"
| "name_of (AbortError _ _) = Some ''AbortError''"
| "name_of (FailedAttemptError _ _ _ _) = Some ''Error''"
| "name_of _ = None"

text \<open>The \<^verbatim>\<open>message\<close> property, of any value; \<^verbatim>\<open>None\<close> is \<^verbatim>\<open>undefined\<close> (also what
  \<^verbatim>\<open>cause?.message\<close> gives on \<^verbatim>\<open>null\<close> and \<^verbatim>\<open>undefined\<close>).\<close>

fun message_of :: "jsval \<Rightarrow> string option" where
  "message_of (NonError _ m) = m"
| "message_of (ErrorObject _ _ m _) = Some m"
| "message_of (AbortError m _) = Some m"
| "message_of (FailedAttemptError m _ _ _) = Some m"
| "message_of _ = None"

text \<open>The \<^verbatim>\<open>stack\<close> property. Stack traces of the errors that the library itself
  creates are engine text and are not modelled.\<close>

fun stack_of :: "jsval \<Rightarrow> string option" where
  "stack_of (ErrorObject _ _ _ s) = s"
| "stack_of _ = None"

text \<open>\<^verbatim>\<open>new Error(message)\<close> and \<^verbatim>\<open>new TypeError(message)\<close>; an absent message is the
  empty string.\<close>

definition newError :: "string option \<Rightarrow> jsval" where
  "newError m = ErrorObject ErrorClass ''Error'' (case m of None \<Rightarrow> [] | Some s \<Rightarrow> s) None"

definition newTypeError :: "string \<Rightarrow> jsval" where
  "newTypeError m = ErrorObject TypeErrorClass ''TypeError'' m None"

text \<open>The string conversion of a template literal \<^verbatim>\<open>`${v}`\<close>: it throws a
  \<^verbatim>\<open>TypeError\<close> on a symbol. (Only applied to values that are not errors, line 146.)\<close>

fun template_string :: "jsval \<Rightarrow> string completion" where
  "template_string (NonError s _) = Returns s"
| "template_string (SymbolValue _) =
     Throws (newTypeError ''Cannot convert a Symbol value to a string'')"
| "template_string v =
     Returns ((case name_of v of None \<Rightarrow> [] | Some n \<Rightarrow> n) @ '': ''
              @ (case message_of v of None \<Rightarrow> [] | Some m \<Rightarrow> m))"

text \<open>The constructor of \<^verbatim>\<open>AbortError\<close> (lines 6-19): from an \<^verbatim>\<open>Error\<close> it keeps the
  error and copies its message; from a string it makes a fresh \<^verbatim>\<open>Error\<close> that gets the
  stack of the \<^verbatim>\<open>AbortError\<close> under construction.\<close>

definition newAbortError :: "jsval + string \<Rightarrow> string option \<Rightarrow> jsval" where
  "newAbortError message this_stack =
     (case message of
        Inl e \<Rightarrow> AbortError (case message_of e of None \<Rightarrow> [] | Some m \<Rightarrow> m) e
      | Inr s \<Rightarrow> AbortError s (ErrorObject ErrorClass ''Error'' s this_stack))"

text \<open>The constructor of \<^verbatim>\<open>FailedAttemptError\<close> (lines 26-29):
  \<^verbatim>\<open>super(cause?.message)\<close> copies the message property of the cause, whatever the cause
  is; counters initialised to 0.\<close>

definition newFailedAttemptError :: "jsval \<Rightarrow> jsval" where
  "newFailedAttemptError c =
     FailedAttemptError (case message_of c of None \<Rightarrow> [] | Some m \<Rightarrow> m) c 0 0"

section \<open>The network-failure classifier (isNetworkError.ts)\<close>

definition errorMessages :: "string list" where
  "errorMessages =
     [''Failed to fetch'',
      ''NetworkError when attempting to fetch resource.'',
      ''The Internet connection appears to be offline.'',
      ''Load failed'',
      ''Network request failed'',
      ''fetch failed'']"

text \<open>\<^verbatim>\<open>Object.prototype.toString.call(value) === "[object Error]"\<close>.\<close>

definition isError :: "jsval \<Rightarrow> bool" where
  "isError v = instanceofError v"

definition isNetworkError :: "jsval \<Rightarrow> bool" where
  "isNetworkError error =
     (let isValid = (isError error \<and> name_of error = Some ''TypeError''
                     \<and> message_of error \<noteq> None)
      in if \<not> isValid then False
         else if message_of error = Some ''Load failed'' then stack_of error = None
         else the (message_of error) \<in> set errorMessages)"

section \<open>Options, signal and the failed-attempt record\<close>

record AbortSignal =
  aborted :: bool
  reason :: jsval

text \<open>The caller's options (lines 32-101). An absent key is \<^verbatim>\<open>None\<close>. The timing options
  passed through to the scheduler do not reach the engine and are left out.\<close>

record Options =
  onFailedAttempt :: "(jsval \<Rightarrow> unit completion) option"
  retries :: "int option"
  shouldRetry :: "(jsval \<Rightarrow> bool completion) option"
  signal :: "AbortSignal option"

text \<open>Lines 115-120: the defaults, overridden by every key the caller gave.\<close>

definition defaultedOptions :: "Options \<Rightarrow> Options" where
  "defaultedOptions options =
     \<lparr> onFailedAttempt =
         (case onFailedAttempt options of None \<Rightarrow> Some (\<lambda>_. Returns ()) | Some f \<Rightarrow> Some f),
       retries = (case retries options of None \<Rightarrow> Some 10 | Some r \<Rightarrow> Some r),
       shouldRetry =
         (case shouldRetry options of None \<Rightarrow> Some (\<lambda>_. Returns True) | Some f \<Rightarrow> Some f),
       signal = signal options \<rparr>"

text \<open>Lines 103-110. \<^verbatim>\<open>options.retries || 0\<close> is 0 when the key is absent or 0.\<close>

definition decorateErrorWithCounts :: "jsval \<Rightarrow> nat \<Rightarrow> Options \<Rightarrow> jsval" where
  "decorateErrorWithCounts error attemptNo options =
     (let retriesLeft' =
            (case retries options of None \<Rightarrow> 0 | Some r \<Rightarrow> if r = 0 then 0 else r)
              - (int attemptNo - 1);
          fae = newFailedAttemptError error
      in FailedAttemptError (fmessage fae) (cause fae) attemptNo retriesLeft')"

section \<open>The session: scheduler, promise, listener and trace\<close>

text \<open>What the engine does to the outside world, in order: it calls the operation, the
  predicate and the observer, and it calls \<^verbatim>\<open>resolve\<close> and \<^verbatim>\<open>reject\<close> of the returned
  promise.\<close>

datatype event =
    Invoke nat
  | ShouldRetry jsval
  | OnFailedAttempt jsval
  | Resolve jsval
  | Reject jsval

datatype outcome = Resolved jsval | Rejected jsval

text \<open>The places where the callback of line 138 is suspended, or where the scheduler waits
  for its timer, so that an \<^verbatim>\<open>abort\<close> event of the signal can be dispatched.\<close>

datatype point =
    AwaitInput nat
  | AwaitShouldRetry nat
  | AwaitOnFailedAttempt nat
  | Backoff nat

text \<open>
  Modelled from the spec: the operation scheduler \<^verbatim>\<open>retry.operation\<close> comes from the
  package \<^verbatim>\<open>retry\<close>, which is not part of the sources. The spec gives its contract:
  \<^verbatim>\<open>attempt(callback)\<close> runs the callback with the attempt index, starting at 1;
  \<^verbatim>\<open>retry(error)\<close> records the error and tells whether another attempt is permitted
  (budget not exhausted, no stop requested), in which case the callback runs again with the
  next index once the back-off timer fires; \<^verbatim>\<open>stop()\<close> cancels the pending timer and
  forbids further attempts; \<^verbatim>\<open>mainError()\<close> is the scheduler's final recorded error. The
  budget is the \<^verbatim>\<open>retries\<close> option; delays are not modelled. The scheduler's state is the
  fields \<open>timeouts\<close> (retries still permitted), \<open>errors\<close> and \<open>timer\<close> (a next
  attempt is pending) of the session.
\<close>

record session =
  timeouts :: nat
  errors :: "jsval list"
  timer :: bool
  promise :: "outcome option"
  listener :: bool
  trace :: "event list"

definition operation :: "Options \<Rightarrow> session" where
  "operation options =
     \<lparr> timeouts = (case retries options of None \<Rightarrow> 0 | Some r \<Rightarrow> nat r),
       errors = [], timer = False, promise = None, listener = False, trace = [] \<rparr>"

definition stop :: "session \<Rightarrow> session" where
  "stop s = s\<lparr>timeouts := 0, timer := False\<rparr>"

definition retry :: "jsval \<Rightarrow> session \<Rightarrow> bool \<times> session" where
  "retry err s =
     (let s1 = s\<lparr>errors := errors s @ [err]\<rparr>
      in case timeouts s1 of
           0 \<Rightarrow> (False, s1)
         | Suc t \<Rightarrow> (True, s1\<lparr>timeouts := t, timer := True\<rparr>))"

definition mainError :: "session \<Rightarrow> jsval" where
  "mainError s = (if errors s = [] then NonError ''null'' None else last (errors s))"

text \<open>The promise of line 114: the first call of \<^verbatim>\<open>resolve\<close> or \<^verbatim>\<open>reject\<close> settles
  it, a later call changes nothing. Every call is traced.\<close>

definition log :: "event \<Rightarrow> session \<Rightarrow> session" where
  "log e s = s\<lparr>trace := trace s @ [e]\<rparr>"

definition settle :: "outcome \<Rightarrow> session \<Rightarrow> session" where
  "settle out s = (case promise s of None \<Rightarrow> s\<lparr>promise := Some out\<rparr> | Some _ \<Rightarrow> s)"

definition resolve :: "jsval \<Rightarrow> session \<Rightarrow> session" where
  "resolve v s = settle (Resolved v) (log (Resolve v) s)"

definition reject :: "jsval \<Rightarrow> session \<Rightarrow> session" where
  "reject v s = settle (Rejected v) (log (Reject v) s)"

text \<open>Lines 124-127. \<^verbatim>\<open>signal?.reason\<close> without a signal is \<^verbatim>\<open>undefined\<close>.\<close>

definition abortHandler :: "Options \<Rightarrow> session \<Rightarrow> session" where
  "abortHandler options s =
     reject (case signal options of None \<Rightarrow> NonError ''undefined'' None | Some sg \<Rightarrow> reason sg)
       (stop s)"

text \<open>Lines 129-131: the listener is added only to a signal that is not yet aborted.\<close>

definition addAbortListener :: "Options \<Rightarrow> session \<Rightarrow> session" where
  "addAbortListener options s =
     (case signal options of
        None \<Rightarrow> s
      | Some sg \<Rightarrow> if \<not> aborted sg then s\<lparr>listener := True\<rparr> else s)"

text \<open>Lines 133-136.\<close>

definition cleanUp :: "session \<Rightarrow> session" where
  "cleanUp s = stop (s\<lparr>listener := False\<rparr>)"

text \<open>The environment: \<open>abort_at\<close> is the point at which the signal's \<^verbatim>\<open>abort\<close> event
  is dispatched, if it is. The event reaches the handler only while the listener is
  registered, and the listener is removed by the call (\<^verbatim>\<open>{once: true}\<close>).\<close>

definition dispatch :: "Options \<Rightarrow> point option \<Rightarrow> point \<Rightarrow> session \<Rightarrow> session" where
  "dispatch options abort_at p s =
     (if listener s \<and> abort_at = Some p
      then abortHandler options (s\<lparr>listener := False\<rparr>) else s)"

section \<open>The retry engine (pRetry, lines 112-179)\<close>

text \<open>Line 159, \<^verbatim>\<open>defaultedOptions.shouldRetry && !(await ...)\<close>: the call of the
  predicate and its suspension. Without a predicate nothing vetoes.\<close>

definition await_shouldRetry ::
  "Options \<Rightarrow> point option \<Rightarrow> jsval \<Rightarrow> nat \<Rightarrow> session \<Rightarrow> bool completion \<times> session" where
  "await_shouldRetry options abort_at fae attemptNo s =
     (case shouldRetry options of
        None \<Rightarrow> (Returns True, s)
      | Some f \<Rightarrow>
          (f fae, dispatch options abort_at (AwaitShouldRetry attemptNo)
                    (log (ShouldRetry fae) s)))"

text \<open>Lines 164-166: the call of the observer and its suspension.\<close>

definition await_onFailedAttempt ::
  "Options \<Rightarrow> point option \<Rightarrow> jsval \<Rightarrow> nat \<Rightarrow> session \<Rightarrow> unit completion \<times> session" where
  "await_onFailedAttempt options abort_at fae attemptNo s =
     (case onFailedAttempt options of
        None \<Rightarrow> (Returns (), s)
      | Some f \<Rightarrow>
          (f fae, dispatch options abort_at (AwaitOnFailedAttempt attemptNo)
                    (log (OnFailedAttempt fae) s)))"

text \<open>Lines 144-170, the inner \<^verbatim>\<open>try\<close> block: it either completes (a retry has been
  scheduled) or throws the error that the \<^verbatim>\<open>catch\<close> of line 171 receives. After a veto
  (lines 160-161) the block goes on: there is no \<^verbatim>\<open>return\<close>.\<close>

definition inner_try ::
  "Options \<Rightarrow> point option \<Rightarrow> jsval \<Rightarrow> nat \<Rightarrow> session \<Rightarrow> unit completion \<times> session" where
  "inner_try options abort_at error attemptNo s =
     (if \<not> instanceofError error then
        (case template_string error of
           Throws e \<Rightarrow> (Throws e, s)
         | Returns str \<Rightarrow>
             (Throws (newTypeError (''Non-error was thrown: '' @ [CHR 0x22] @ str @ [CHR 0x22]
                        @ ''. You should only throw errors.'')), s))
      else if instanceofAbortError error then (Throws (originalError error), s)
      else if instanceofTypeError error \<and> \<not> isNetworkError error then (Throws error, s)
      else
        (let fae = decorateErrorWithCounts error attemptNo options
         in case await_shouldRetry options abort_at fae attemptNo s of
              (Throws e, s1) \<Rightarrow> (Throws e, s1)
            | (Returns go, s1) \<Rightarrow>
                (let s2 = (if \<not> go then reject error (stop s1) else s1)
                 in case await_onFailedAttempt options abort_at fae attemptNo s2 of
                      (Throws e, s3) \<Rightarrow> (Throws e, s3)
                    | (Returns _, s3) \<Rightarrow>
                        (case retry fae s3 of
                           (False, s4) \<Rightarrow> (Throws (mainError s4), s4)
                         | (True, s4) \<Rightarrow> (Returns (), s4)))))"

text \<open>Lines 138-177, the callback given to \<^verbatim>\<open>operation.attempt\<close>.\<close>

definition attempt_callback ::
  "(nat \<Rightarrow> jsval completion) \<Rightarrow> Options \<Rightarrow> point option \<Rightarrow> nat \<Rightarrow> session \<Rightarrow> session" where
  "attempt_callback input options abort_at attemptNo s =
     (let s1 = dispatch options abort_at (AwaitInput attemptNo) (log (Invoke attemptNo) s)
      in case input attemptNo of
           Returns result \<Rightarrow> resolve result (cleanUp s1)
         | Throws error \<Rightarrow>
             (case inner_try options abort_at error attemptNo s1 of
                (Returns _, s2) \<Rightarrow> s2
              | (Throws finalError, s2) \<Rightarrow>
                  reject (decorateErrorWithCounts finalError attemptNo options) (cleanUp s2)))"

text \<open>\<^verbatim>\<open>operation.attempt\<close> and the scheduler's timer: the callback runs for attempt
  \<open>attemptNo\<close>; when it has scheduled a retry and the timer is not cancelled while it
  waits, the callback runs again for the next attempt.\<close>

function run ::
  "(nat \<Rightarrow> jsval completion) \<Rightarrow> Options \<Rightarrow> point option \<Rightarrow> nat \<Rightarrow> session \<Rightarrow> session" where
  "run input options abort_at attemptNo s =
     (let s1 = attempt_callback input options abort_at attemptNo s
      in if timer s1 then
           (let s2 = dispatch options abort_at (Backoff attemptNo) s1
            in if timer s2 then run input options abort_at (Suc attemptNo) (s2\<lparr>timer := False\<rparr>)
               else s2)
         else s1)"
  by pat_completeness auto

text \<open>Every step of the engine reads and writes the session field by field.\<close>

lemma log_fields [simp]:
  "timeouts (log e s) = timeouts s" "errors (log e s) = errors s" "timer (log e s) = timer s"
  "promise (log e s) = promise s" "listener (log e s) = listener s"
  "trace (log e s) = trace s @ [e]"
  by (simp_all add: log_def)

lemma settle_fields [simp]:
  "timeouts (settle out s) = timeouts s" "errors (settle out s) = errors s"
  "timer (settle out s) = timer s" "listener (settle out s) = listener s"
  "trace (settle out s) = trace s"
  "promise (settle out s) = (case promise s of None \<Rightarrow> Some out | Some x \<Rightarrow> Some x)"
  by (simp_all add: settle_def split: option.splits)

lemma stop_fields [simp]:
  "timeouts (stop s) = 0" "errors (stop s) = errors s" "timer (stop s) = False"
  "promise (stop s) = promise s" "listener (stop s) = listener s" "trace (stop s) = trace s"
  by (simp_all add: stop_def)

lemma resolve_fields [simp]:
  "timeouts (resolve v s) = timeouts s" "errors (resolve v s) = errors s"
  "timer (resolve v s) = timer s" "listener (resolve v s) = listener s"
  "trace (resolve v s) = trace s @ [Resolve v]"
  "promise (resolve v s) = (case promise s of None \<Rightarrow> Some (Resolved v) | Some x \<Rightarrow> Some x)"
  by (simp_all add: resolve_def)

lemma reject_fields [simp]:
  "timeouts (reject v s) = timeouts s" "errors (reject v s) = errors s"
  "timer (reject v s) = timer s" "listener (reject v s) = listener s"
  "trace (reject v s) = trace s @ [Reject v]"
  "promise (reject v s) = (case promise s of None \<Rightarrow> Some (Rejected v) | Some x \<Rightarrow> Some x)"
  by (simp_all add: reject_def)

lemma cleanUp_fields [simp]:
  "timeouts (cleanUp s) = 0" "errors (cleanUp s) = errors s" "timer (cleanUp s) = False"
  "promise (cleanUp s) = promise s" "listener (cleanUp s) = False" "trace (cleanUp s) = trace s"
  by (simp_all add: cleanUp_def)

lemma dispatch_timeouts: "timeouts (dispatch options abort_at p s) \<le> timeouts s"
  by (simp add: dispatch_def abortHandler_def)

lemma dispatch_timer: "timer (dispatch options abort_at p s) \<Longrightarrow> timer s"
  by (simp add: dispatch_def abortHandler_def split: if_splits)

lemma retry_True: "retry err s = (True, s') \<Longrightarrow> timeouts s' < timeouts s"
  by (auto simp: retry_def Let_def split: nat.splits)

lemma retry_False: "retry err s = (False, s') \<Longrightarrow> timeouts s' = 0"
  by (auto simp: retry_def Let_def split: nat.splits)

lemma await_shouldRetry_timeouts:
  "await_shouldRetry options abort_at fae n s = (r, s') \<Longrightarrow> timeouts s' \<le> timeouts s"
  using dispatch_timeouts [of options abort_at "AwaitShouldRetry n" "log (ShouldRetry fae) s"]
  by (auto simp: await_shouldRetry_def split: option.splits)

lemma await_onFailedAttempt_timeouts:
  "await_onFailedAttempt options abort_at fae n s = (r, s') \<Longrightarrow> timeouts s' \<le> timeouts s"
  using dispatch_timeouts [of options abort_at "AwaitOnFailedAttempt n" "log (OnFailedAttempt fae) s"]
  by (auto simp: await_onFailedAttempt_def split: option.splits)

lemma inner_try_Returns_timeouts:
  assumes "inner_try options abort_at error n s = (Returns u, s')"
  shows "timeouts s' < timeouts s"
proof -
  let ?fae = "decorateErrorWithCounts error n options"
  from assms obtain go s1 s3 where
    sr: "await_shouldRetry options abort_at ?fae n s = (Returns go, s1)" and
    ofa: "await_onFailedAttempt options abort_at ?fae n
            (if \<not> go then reject error (stop s1) else s1) = (Returns (), s3)" and
    rt: "retry ?fae s3 = (True, s')"
    by (auto simp: inner_try_def Let_def split: if_splits completion.splits prod.splits bool.splits)
  have "timeouts s1 \<le> timeouts s" using sr by (rule await_shouldRetry_timeouts)
  moreover have "timeouts s3 \<le> timeouts s1"
    using await_onFailedAttempt_timeouts [OF ofa] by (simp split: if_splits)
  moreover have "timeouts s' < timeouts s3" using rt by (rule retry_True)
  ultimately show ?thesis by simp
qed

lemma attempt_callback_timer:
  assumes "timer (attempt_callback input options abort_at n s)"
  shows "timeouts (attempt_callback input options abort_at n s) < timeouts s"
proof (cases "input n")
  case (Returns v)
  with assms show ?thesis by (simp add: attempt_callback_def Let_def)
next
  case (Throws e)
  let ?s1 = "dispatch options abort_at (AwaitInput n) (log (Invoke n) s)"
  obtain r s2 where it: "inner_try options abort_at e n ?s1 = (r, s2)" by (cases "inner_try options abort_at e n ?s1")
  show ?thesis
  proof (cases r)
    case (Returns u)
    have "timeouts s2 < timeouts ?s1" using it Returns inner_try_Returns_timeouts by blast
    moreover have "timeouts ?s1 \<le> timeouts s"
      using dispatch_timeouts [of options abort_at "AwaitInput n" "log (Invoke n) s"] by simp
    ultimately show ?thesis using Throws it Returns by (simp add: attempt_callback_def Let_def)
  next
    case (Throws x)
    with assms \<open>input n = Throws e\<close> it show ?thesis by (simp add: attempt_callback_def Let_def)
  qed
qed

termination run
proof (relation "measure (\<lambda>(input, options, abort_at, n, s). timeouts s)", goal_cases)
  case 1
  show ?case by simp
next
  case (2 input options abort_at n s s1 s2)
  have "timeouts s1 < timeouts s" using 2 attempt_callback_timer by blast
  moreover have "timeouts s2 \<le> timeouts s1" using 2 dispatch_timeouts by blast
  ultimately show ?case by simp
qed


declare run.simps [simp del]

text \<open>Lines 112-179: defaults, scheduler, listener registration, first attempt. The result
  is the session once nothing more can happen; its \<open>promise\<close> is the promise returned to
  the caller.\<close>

definition pRetry :: "(nat \<Rightarrow> jsval completion) \<Rightarrow> Options \<Rightarrow> point option \<Rightarrow> session" where
  "pRetry input options abort_at =
     (let opts = defaultedOptions options
      in run input opts abort_at 1 (addAbortListener opts (operation opts)))"

text \<open>Reading a trace: the attempt numbers the operation was called with; the calls of
  \<^verbatim>\<open>resolve\<close> and \<^verbatim>\<open>reject\<close>; and the records handed to the predicate and to the
  observer, each paired with the number of invocations of the operation made so far.\<close>

fun invocations :: "event list \<Rightarrow> nat list" where
  "invocations [] = []"
| "invocations (Invoke n # es) = n # invocations es"
| "invocations (_ # es) = invocations es"

fun settle_calls :: "event list \<Rightarrow> outcome list" where
  "settle_calls [] = []"
| "settle_calls (Resolve v # es) = Resolved v # settle_calls es"
| "settle_calls (Reject v # es) = Rejected v # settle_calls es"
| "settle_calls (_ # es) = settle_calls es"

fun observed :: "nat \<Rightarrow> event list \<Rightarrow> (nat \<times> jsval) list" where
  "observed k [] = []"
| "observed k (Invoke n # es) = observed (Suc k) es"
| "observed k (ShouldRetry f # es) = (k, f) # observed k es"
| "observed k (OnFailedAttempt f # es) = (k, f) # observed k es"
| "observed k (_ # es) = observed k es"

text \<open>The budget in force: the \<^verbatim>\<open>retries\<close> option, 10 by default.\<close>

definition budget :: "Options \<Rightarrow> int" where
  "budget options = (case retries options of None \<Rightarrow> 10 | Some r \<Rightarrow> r)"

section \<open>Properties of the engine\<close>

text \<open>The errors that pass the three tests of lines 145-155 and reach the predicate, the
  observer and the scheduler (the retryable candidates).\<close>

definition candidate :: "jsval \<Rightarrow> bool" where
  "candidate error \<longleftrightarrow>
     instanceofError error \<and> \<not> instanceofAbortError error
     \<and> \<not> (instanceofTypeError error \<and> \<not> isNetworkError error)"

lemma dispatch_None [simp]: "dispatch options None p s = s"
  by (simp add: dispatch_def)

lemma dispatch_no_listener: "\<not> listener s \<Longrightarrow> dispatch options abort_at p s = s"
  by (simp add: dispatch_def)

lemma dispatch_listener: "listener (dispatch options abort_at p s) \<Longrightarrow> listener s"
  by (simp add: dispatch_def abortHandler_def split: if_splits)

lemma abortHandler_fields [simp]:
  "timeouts (abortHandler options s) = 0" "timer (abortHandler options s) = False"
  "errors (abortHandler options s) = errors s" "listener (abortHandler options s) = listener s"
  by (simp_all add: abortHandler_def)

lemma retry_fields:
  "retry err s = (b, s') \<Longrightarrow>
     promise s' = promise s \<and> listener s' = listener s \<and> trace s' = trace s
     \<and> errors s' = errors s @ [err]"
  by (auto simp: retry_def Let_def split: nat.splits)

lemma retry_permitted:
  "retry err s = (True, s') \<Longrightarrow> timer s' \<and> timeouts s = Suc (timeouts s')"
  by (auto simp: retry_def Let_def split: nat.splits)

lemma retry_eq:
  "retry err s = (if timeouts s = 0 then (False, s\<lparr>errors := errors s @ [err]\<rparr>)
                  else (True, s\<lparr>errors := errors s @ [err], timeouts := timeouts s - 1, timer := True\<rparr>))"
  by (auto simp: retry_def Let_def split: nat.splits)

lemma inner_try_not_candidate:
  "\<not> candidate error \<Longrightarrow> \<exists>x. inner_try options abort_at error n s = (Throws x, s)"
  by (auto simp: candidate_def inner_try_def split: completion.splits)

lemma inner_try_candidate:
  "candidate error \<Longrightarrow>
   inner_try options abort_at error n s =
     (let fae = decorateErrorWithCounts error n options
      in case await_shouldRetry options abort_at fae n s of
           (Throws e, s1) \<Rightarrow> (Throws e, s1)
         | (Returns go, s1) \<Rightarrow>
             (let s2 = (if \<not> go then reject error (stop s1) else s1)
              in case await_onFailedAttempt options abort_at fae n s2 of
                   (Throws e, s3) \<Rightarrow> (Throws e, s3)
                 | (Returns _, s3) \<Rightarrow>
                     (case retry fae s3 of
                        (False, s4) \<Rightarrow> (Throws (mainError s4), s4)
                      | (True, s4) \<Rightarrow> (Returns (), s4))))"
  by (auto simp: candidate_def inner_try_def)

lemma inner_try_cases [case_names fatal predicate_throws observer_throws exhausted retrying]:
  fixes options abort_at error n s
  defines "fae \<equiv> decorateErrorWithCounts error n options"
  obtains
    x where "\<not> candidate error" "inner_try options abort_at error n s = (Throws x, s)"
  | x s1 where "candidate error"
      "await_shouldRetry options abort_at fae n s = (Throws x, s1)"
      "inner_try options abort_at error n s = (Throws x, s1)"
  | go s1 x s3 where "candidate error"
      "await_shouldRetry options abort_at fae n s = (Returns go, s1)"
      "await_onFailedAttempt options abort_at fae n
         (if \<not> go then reject error (stop s1) else s1) = (Throws x, s3)"
      "inner_try options abort_at error n s = (Throws x, s3)"
  | go s1 s3 s4 where "candidate error"
      "await_shouldRetry options abort_at fae n s = (Returns go, s1)"
      "await_onFailedAttempt options abort_at fae n
         (if \<not> go then reject error (stop s1) else s1) = (Returns (), s3)"
      "retry fae s3 = (False, s4)"
      "inner_try options abort_at error n s = (Throws (mainError s4), s4)"
  | go s1 s3 s4 where "candidate error"
      "await_shouldRetry options abort_at fae n s = (Returns go, s1)"
      "await_onFailedAttempt options abort_at fae n
         (if \<not> go then reject error (stop s1) else s1) = (Returns (), s3)"
      "retry fae s3 = (True, s4)"
      "inner_try options abort_at error n s = (Returns (), s4)"
proof (cases "candidate error")
  case False
  then show ?thesis using inner_try_not_candidate that(1) by blast
next
  case True
  note eq = inner_try_candidate [OF True, of options abort_at n s, folded fae_def]
  obtain v s1 where sr: "await_shouldRetry options abort_at fae n s = (v, s1)"
    by (cases "await_shouldRetry options abort_at fae n s")
  show ?thesis
  proof (cases v)
    case (Throws x)
    with sr eq True that(2) show ?thesis by (simp add: Let_def)
  next
    case (Returns go)
    let ?s2 = "if \<not> go then reject error (stop s1) else s1"
    obtain w s3 where ofa: "await_onFailedAttempt options abort_at fae n ?s2 = (w, s3)"
      by (cases "await_onFailedAttempt options abort_at fae n ?s2")
    show ?thesis
    proof (cases w)
      case (Throws x)
      with sr Returns ofa eq True that(3) [of go s1 x s3] show ?thesis by (simp add: Let_def)
    next
      case Returns2: (Returns u)
      obtain b s4 where rt: "retry fae s3 = (b, s4)" by (cases "retry fae s3")
      show ?thesis
      proof (cases b)
        case False
        with sr Returns ofa Returns2 rt eq True that(4) [of go s1 s3 s4] show ?thesis
          by (simp add: Let_def)
      next
        case b: True
        with sr Returns ofa Returns2 rt eq True that(5) [of go s1 s3 s4] show ?thesis
          by (simp add: Let_def)
      qed
    qed
  qed
qed

subsection \<open>Reading traces\<close>

lemma invocations_append [simp]: "invocations (xs @ ys) = invocations xs @ invocations ys"
  by (induction xs rule: invocations.induct) simp_all

lemma settle_calls_append [simp]: "settle_calls (xs @ ys) = settle_calls xs @ settle_calls ys"
  by (induction xs rule: settle_calls.induct) simp_all

lemma observed_append:
  "observed k (xs @ ys) = observed k xs @ observed (k + length (invocations xs)) ys"
  by (induction k xs rule: observed.induct) simp_all

lemma observed_bound: "(m, f) \<in> set (observed k es) \<Longrightarrow> k \<le> m \<and> m \<le> k + length (invocations es)"
  by (induction k es rule: observed.induct) auto

lemma Invoke_invocations: "Invoke k \<in> set es \<longleftrightarrow> k \<in> set (invocations es)"
  by (induction es rule: invocations.induct) auto

subsection \<open>The promise is what the first call of resolve or reject made it\<close>













lemma attempt_callback_cases [case_names success scheduled failed]:
  fixes input options abort_at n s
  obtains
    v where "input n = Returns v"
      "attempt_callback input options abort_at n s
       = resolve v (cleanUp (dispatch options abort_at (AwaitInput n) (log (Invoke n) s)))"
  | e s2 where "input n = Throws e"
      "inner_try options abort_at e n (dispatch options abort_at (AwaitInput n) (log (Invoke n) s))
       = (Returns (), s2)"
      "attempt_callback input options abort_at n s = s2"
  | e x s2 where "input n = Throws e"
      "inner_try options abort_at e n (dispatch options abort_at (AwaitInput n) (log (Invoke n) s))
       = (Throws x, s2)"
      "attempt_callback input options abort_at n s
       = reject (decorateErrorWithCounts x n options) (cleanUp s2)"
proof (cases "input n")
  case (Returns v)
  then show ?thesis using that(1) by (simp add: attempt_callback_def Let_def)
next
  case (Throws e)
  let ?s1 = "dispatch options abort_at (AwaitInput n) (log (Invoke n) s)"
  obtain r s2 where it: "inner_try options abort_at e n ?s1 = (r, s2)"
    by (cases "inner_try options abort_at e n ?s1")
  show ?thesis
  proof (cases r)
    case (Returns u)
    with Throws it that(2) [of e s2] show ?thesis by (simp add: attempt_callback_def Let_def)
  next
    case Throws2: (Throws x)
    with Throws it that(3) [of e x s2] show ?thesis by (simp add: attempt_callback_def Let_def)
  qed
qed





subsection \<open>Sessions without cancellation: attempts that are retried\<close>

definition verdict :: "Options \<Rightarrow> jsval \<Rightarrow> bool completion" where
  "verdict options fae = (case shouldRetry options of None \<Rightarrow> Returns True | Some f \<Rightarrow> f fae)"

definition observer_result :: "Options \<Rightarrow> jsval \<Rightarrow> unit completion" where
  "observer_result options fae =
     (case onFailedAttempt options of None \<Rightarrow> Returns () | Some f \<Rightarrow> f fae)"

definition consulted :: "Options \<Rightarrow> jsval \<Rightarrow> event list" where
  "consulted options fae = (case shouldRetry options of None \<Rightarrow> [] | Some _ \<Rightarrow> [ShouldRetry fae])"

definition notified :: "Options \<Rightarrow> jsval \<Rightarrow> event list" where
  "notified options fae =
     (case onFailedAttempt options of None \<Rightarrow> [] | Some _ \<Rightarrow> [OnFailedAttempt fae])"

definition passes :: "(nat \<Rightarrow> jsval completion) \<Rightarrow> Options \<Rightarrow> nat \<Rightarrow> bool" where
  "passes input options n \<longleftrightarrow>
     (case input n of
        Returns _ \<Rightarrow> False
      | Throws e \<Rightarrow>
          candidate e
          \<and> verdict options (decorateErrorWithCounts e n options) = Returns True
          \<and> observer_result options (decorateErrorWithCounts e n options) = Returns ())"

definition retried :: "(nat \<Rightarrow> jsval completion) \<Rightarrow> Options \<Rightarrow> nat \<Rightarrow> session \<Rightarrow> session" where
  "retried input options n s =
     (case input n of
        Returns _ \<Rightarrow> s
      | Throws e \<Rightarrow>
          (let fae = decorateErrorWithCounts e n options
           in s\<lparr>trace := trace s @ Invoke n # consulted options fae @ notified options fae,
                errors := errors s @ [fae], timeouts := timeouts s - 1, timer := True\<rparr>))"

lemma await_shouldRetry_None:
  "await_shouldRetry options None fae n s
   = (verdict options fae, s\<lparr>trace := trace s @ consulted options fae\<rparr>)"
  by (simp add: await_shouldRetry_def verdict_def consulted_def log_def split: option.splits)

lemma await_onFailedAttempt_None:
  "await_onFailedAttempt options None fae n s
   = (observer_result options fae, s\<lparr>trace := trace s @ notified options fae\<rparr>)"
  by (simp add: await_onFailedAttempt_def observer_result_def notified_def log_def
      split: option.splits)

lemma attempt_callback_passes:
  assumes "passes input options n" "0 < timeouts s"
  shows "attempt_callback input options None n s = retried input options n s"
proof -
  from assms(1) obtain e where e: "input n = Throws e" "candidate e"
    "verdict options (decorateErrorWithCounts e n options) = Returns True"
    "observer_result options (decorateErrorWithCounts e n options) = Returns ()"
    by (auto simp: passes_def split: completion.splits)
  from assms(2) obtain t where t: "timeouts s = Suc t" by (cases "timeouts s") auto
  show ?thesis
    using e t
    by (simp add: attempt_callback_def inner_try_candidate await_shouldRetry_None
        await_onFailedAttempt_None retry_def retried_def log_def Let_def)
qed

lemma attempt_callback_retrying:
  assumes "timer (attempt_callback input options None n s)"
  shows "passes input options n \<and> 0 < timeouts s"
proof (cases input options "None :: point option" n s rule: attempt_callback_cases)
  case (success v)
  with assms show ?thesis by simp
next
  case (failed e x s2)
  with assms show ?thesis by simp
next
  case (scheduled e s2)
  let ?s0 = "log (Invoke n) s"
  let ?fae = "decorateErrorWithCounts e n options"
  from scheduled(2) have it: "inner_try options None e n ?s0 = (Returns (), s2)" by simp
  show ?thesis
  proof (cases options "None :: point option" e n ?s0 rule: inner_try_cases)
    case (retrying go s1 s3 s4)
    from retrying(2) have v: "verdict options ?fae = Returns go"
      and s1: "s1 = ?s0\<lparr>trace := trace ?s0 @ consulted options ?fae\<rparr>"
      by (simp_all add: await_shouldRetry_None)
    from retrying(3) have o: "observer_result options ?fae = Returns ()"
      and s3: "timeouts s3 = timeouts (if \<not> go then reject e (stop s1) else s1)"
      by (auto simp: await_onFailedAttempt_None)
    from retrying(4) have "0 < timeouts s3" using retry_permitted by fastforce
    with s3 s1 have "go \<and> 0 < timeouts s" by (auto split: if_splits)
    with v o scheduled(1) retrying(1) show ?thesis by (simp add: passes_def)
  qed (use it in simp_all)
qed

lemma retried_fields [simp]:
  "promise (retried input options n s) = promise s"
  "listener (retried input options n s) = listener s"
  by (simp_all add: retried_def Let_def split: completion.splits)

lemma retried_passes:
  assumes "passes input options n"
  shows "timer (retried input options n s)"
    "timeouts (retried input options n s) = timeouts s - 1"
    "invocations (trace (retried input options n s)) = invocations (trace s) @ [n]"
    "settle_calls (trace (retried input options n s)) = settle_calls (trace s)"
  using assms
  by (auto simp: retried_def passes_def consulted_def notified_def Let_def
      split: completion.splits option.splits)

lemma run_stops:
  "\<not> timer (attempt_callback input options abort_at n s) \<Longrightarrow>
   run input options abort_at n s = attempt_callback input options abort_at n s"
  by (simp add: run.simps [of _ _ _ n] Let_def)

lemma run_continues:
  "timer (attempt_callback input options None n s) \<Longrightarrow>
   run input options None n s
   = run input options None (Suc n) ((attempt_callback input options None n s)\<lparr>timer := False\<rparr>)"
  by (simp add: run.simps [of _ _ _ n] Let_def)

lemma run_passes:
  assumes "\<forall>i. n \<le> i \<and> i < k \<longrightarrow> passes input options i" "k - n \<le> timeouts s" "n \<le> k"
  shows "\<exists>s'. run input options None n s = run input options None k s'
           \<and> promise s' = promise s \<and> listener s' = listener s
           \<and> invocations (trace s') = invocations (trace s) @ [n..<k]
           \<and> settle_calls (trace s') = settle_calls (trace s)
           \<and> timeouts s' = timeouts s - (k - n)"
  using assms
proof (induction "k - n" arbitrary: n s)
  case 0
  then have "n = k" by simp
  then show ?case by auto
next
  case (Suc d)
  then have nk: "n < k" and p: "passes input options n" and t: "0 < timeouts s" by auto
  let ?s1 = "retried input options n s"
  have cb: "attempt_callback input options None n s = ?s1"
    using p t by (rule attempt_callback_passes)
  have step: "run input options None n s = run input options None (Suc n) (?s1\<lparr>timer := False\<rparr>)"
    using run_continues [of input options n s] cb retried_passes(1) [OF p] by simp
  have "\<exists>s'. run input options None (Suc n) (?s1\<lparr>timer := False\<rparr>) = run input options None k s'
           \<and> promise s' = promise (?s1\<lparr>timer := False\<rparr>)
           \<and> listener s' = listener (?s1\<lparr>timer := False\<rparr>)
           \<and> invocations (trace s') = invocations (trace (?s1\<lparr>timer := False\<rparr>)) @ [Suc n..<k]
           \<and> settle_calls (trace s') = settle_calls (trace (?s1\<lparr>timer := False\<rparr>))
           \<and> timeouts s' = timeouts (?s1\<lparr>timer := False\<rparr>) - (k - Suc n)"
  proof (rule Suc.hyps(1))
    show "d = k - Suc n" using Suc.hyps(2) by simp
    show "\<forall>i. Suc n \<le> i \<and> i < k \<longrightarrow> passes input options i" using Suc.prems(1) by simp
    show "k - Suc n \<le> timeouts (?s1\<lparr>timer := False\<rparr>)"
      using Suc.prems(2) retried_passes(2) [OF p, of s] by simp
    show "Suc n \<le> k" using nk by simp
  qed
  then obtain s' where s': "run input options None (Suc n) (?s1\<lparr>timer := False\<rparr>) = run input options None k s'"
      "promise s' = promise s" "listener s' = listener s"
      "invocations (trace s') = invocations (trace s) @ n # [Suc n..<k]"
      "settle_calls (trace s') = settle_calls (trace s)"
      "timeouts s' = timeouts s - 1 - (k - Suc n)"
    using retried_passes [OF p, of s] by auto
  have "[n..<k] = n # [Suc n..<k]" using nk by (simp add: upt_conv_Cons)
  moreover have "timeouts s - 1 - (k - Suc n) = timeouts s - (k - n)" using nk by simp
  ultimately show ?case using step s' by auto
qed

subsection \<open>What an attempt appends to the trace\<close>

definition extended :: "(event \<Rightarrow> bool) \<Rightarrow> session \<Rightarrow> session \<Rightarrow> bool" where
  "extended P s s' \<longleftrightarrow> (\<exists>evs. trace s' = trace s @ evs \<and> list_all P evs)"

lemma extended_same: "trace s' = trace s \<Longrightarrow> extended P s s'"
  by (simp add: extended_def)

lemma extended_trans: "extended P s s' \<Longrightarrow> extended P s' s'' \<Longrightarrow> extended P s s''"
  by (auto simp: extended_def)

lemma extended_log: "P e \<Longrightarrow> extended P s (log e s)"
  by (simp add: extended_def)

lemma extended_reject: "P (Reject v) \<Longrightarrow> extended P s (reject v s)"
  by (simp add: extended_def)

lemma extended_dispatch: "\<forall>r. P (Reject r) \<Longrightarrow> extended P s (dispatch options abort_at p s)"
  by (simp add: extended_def dispatch_def abortHandler_def)

lemma extended_await_shouldRetry:
  assumes "\<forall>r. P (Reject r)" "P (ShouldRetry fae)"
    "await_shouldRetry options abort_at fae n s = (v, s')"
  shows "extended P s s'"
proof (cases "shouldRetry options")
  case None
  with assms(3) show ?thesis by (simp add: await_shouldRetry_def extended_same)
next
  case (Some f)
  with assms(3) have "s' = dispatch options abort_at (AwaitShouldRetry n) (log (ShouldRetry fae) s)"
    by (simp add: await_shouldRetry_def)
  then show ?thesis
    using extended_trans [OF extended_log [of P "ShouldRetry fae" s] extended_dispatch] assms(1,2)
    by simp
qed

lemma extended_await_onFailedAttempt:
  assumes "\<forall>r. P (Reject r)" "P (OnFailedAttempt fae)"
    "await_onFailedAttempt options abort_at fae n s = (v, s')"
  shows "extended P s s'"
proof (cases "onFailedAttempt options")
  case None
  with assms(3) show ?thesis by (simp add: await_onFailedAttempt_def extended_same)
next
  case (Some f)
  with assms(3) have "s' = dispatch options abort_at (AwaitOnFailedAttempt n) (log (OnFailedAttempt fae) s)"
    by (simp add: await_onFailedAttempt_def)
  then show ?thesis
    using extended_trans [OF extended_log [of P "OnFailedAttempt fae" s] extended_dispatch] assms(1,2)
    by simp
qed

lemma extended_veto:
  "\<forall>r. P (Reject r) \<Longrightarrow> extended P s (if \<not> go then reject error (stop s) else s)"
  by (simp add: extended_def)

lemma extended_retry: "retry err s = (b, s') \<Longrightarrow> extended P s s'"
  using retry_fields [of err s b s'] by (simp add: extended_same)

lemma extended_inner_try:
  assumes R: "\<forall>r. P (Reject r)"
    and S: "P (ShouldRetry (decorateErrorWithCounts error n options))"
    and O: "P (OnFailedAttempt (decorateErrorWithCounts error n options))"
    and it: "inner_try options abort_at error n s = (r, s')"
  shows "extended P s s'"
proof (cases options abort_at error n s rule: inner_try_cases)
  case (fatal x)
  with it show ?thesis by (simp add: extended_same)
next
  case (predicate_throws x s1)
  with it extended_await_shouldRetry [OF R S] show ?thesis by auto
next
  case (observer_throws go s1 x s3)
  have "extended P s s1" using extended_await_shouldRetry [OF R S observer_throws(2)] .
  moreover have "extended P s1 (if \<not> go then reject error (stop s1) else s1)"
    using R by (rule extended_veto)
  moreover have "extended P (if \<not> go then reject error (stop s1) else s1) s3"
    using extended_await_onFailedAttempt [OF R O observer_throws(3)] .
  ultimately show ?thesis using it observer_throws(4) by (auto intro: extended_trans)
next
  case (exhausted go s1 s3 s4)
  have "extended P s s1" using extended_await_shouldRetry [OF R S exhausted(2)] .
  moreover have "extended P s1 (if \<not> go then reject error (stop s1) else s1)"
    using R by (rule extended_veto)
  moreover have "extended P (if \<not> go then reject error (stop s1) else s1) s3"
    using extended_await_onFailedAttempt [OF R O exhausted(3)] .
  moreover have "extended P s3 s4" using exhausted(4) by (rule extended_retry)
  ultimately show ?thesis using it exhausted(5) by (auto intro: extended_trans)
next
  case (retrying go s1 s3 s4)
  have "extended P s s1" using extended_await_shouldRetry [OF R S retrying(2)] .
  moreover have "extended P s1 (if \<not> go then reject error (stop s1) else s1)"
    using R by (rule extended_veto)
  moreover have "extended P (if \<not> go then reject error (stop s1) else s1) s3"
    using extended_await_onFailedAttempt [OF R O retrying(3)] .
  moreover have "extended P s3 s4" using retrying(4) by (rule extended_retry)
  ultimately show ?thesis using it retrying(5) by (auto intro: extended_trans)
qed

text \<open>The events of a failed attempt: calls of the predicate and of the observer with the
  record of that attempt, and calls of reject.\<close>

lemma attempt_callback_failed_trace:
  assumes R: "\<forall>r. P (Reject r)"
    and S: "P (ShouldRetry (decorateErrorWithCounts e n options))"
    and O: "P (OnFailedAttempt (decorateErrorWithCounts e n options))"
    and e: "input n = Throws e"
  shows "\<exists>evs. trace (attempt_callback input options abort_at n s) = trace s @ Invoke n # evs
               \<and> list_all P evs"
proof -
  let ?s0 = "log (Invoke n) s"
  let ?s1 = "dispatch options abort_at (AwaitInput n) ?s0"
  have d: "extended P ?s0 ?s1" using R by (rule extended_dispatch)
  have "extended P ?s0 (attempt_callback input options abort_at n s)"
  proof (cases input options abort_at n s rule: attempt_callback_cases)
    case (success v)
    with e show ?thesis by simp
  next
    case (scheduled e' s2)
    with e have "inner_try options abort_at e n ?s1 = (Returns (), s2)" by simp
    from extended_inner_try [OF R S O this] d scheduled(3) show ?thesis
      by (auto intro: extended_trans)
  next
    case (failed e' x s2)
    with e have "inner_try options abort_at e n ?s1 = (Throws x, s2)" by simp
    from extended_inner_try [OF R S O this] d have "extended P ?s0 s2"
      by (auto intro: extended_trans)
    moreover have "extended P s2 (reject (decorateErrorWithCounts x n options) (cleanUp s2))"
      using R by (simp add: extended_def)
    ultimately show ?thesis using failed(3) by (auto intro: extended_trans)
  qed
  then show ?thesis by (auto simp: extended_def)
qed

lemma attempt_callback_success_trace:
  assumes "input n = Returns v"
  shows "\<exists>evs. trace (attempt_callback input options abort_at n s)
                 = trace s @ Invoke n # evs @ [Resolve v]
               \<and> list_all (\<lambda>ev. \<exists>r. ev = Reject r) evs
               \<and> (abort_at = None \<longrightarrow> evs = [])"
  using assms
  by (auto simp: attempt_callback_def dispatch_def abortHandler_def Let_def)

lemma no_invocations:
  "list_all (\<lambda>ev. case ev of Invoke _ \<Rightarrow> False | _ \<Rightarrow> True) evs \<Longrightarrow> invocations evs = []"
proof (induction evs)
  case (Cons a evs)
  then show ?case by (cases a) auto
qed simp

lemma attempt_callback_invocations:
  "invocations (trace (attempt_callback input options abort_at n s))
   = invocations (trace s) @ [n]"
proof (cases "input n")
  case (Returns v)
  then show ?thesis
    by (auto simp: attempt_callback_def dispatch_def abortHandler_def Let_def)
next
  case (Throws e)
  let ?P = "\<lambda>ev. case ev of Invoke _ \<Rightarrow> False | _ \<Rightarrow> True"
  have "\<exists>evs. trace (attempt_callback input options abort_at n s) = trace s @ Invoke n # evs
            \<and> list_all ?P evs"
    by (rule attempt_callback_failed_trace [where e = e]) (simp_all add: Throws)
  then obtain evs where t: "trace (attempt_callback input options abort_at n s) = trace s @ Invoke n # evs"
    and "list_all ?P evs"
    by blast
  then have "invocations evs = []" using no_invocations by blast
  with t show ?thesis by simp
qed

lemma run_reaches:
  assumes "k \<in> set (invocations (trace (run input options None n s)))"
    "k \<notin> set (invocations (trace s))" "n \<le> k"
  shows "(\<forall>i. n \<le> i \<and> i < k \<longrightarrow> passes input options i) \<and> k - n \<le> timeouts s"
  using assms
proof (induction "k - n" arbitrary: n s)
  case 0
  then show ?case by auto
next
  case (Suc d)
  then have nk: "n < k" by simp
  let ?s1 = "attempt_callback input options None n s"
  have t1: "timer ?s1"
  proof (rule ccontr)
    assume "\<not> timer ?s1"
    then have "run input options None n s = ?s1" by (rule run_stops)
    with Suc.prems(1,2) nk show False by (simp add: attempt_callback_invocations)
  qed
  then have p: "passes input options n" and t: "0 < timeouts s"
    using attempt_callback_retrying by blast+
  have cb: "?s1 = retried input options n s" using p t by (rule attempt_callback_passes)
  let ?s2 = "(retried input options n s)\<lparr>timer := False\<rparr>"
  have step: "run input options None n s = run input options None (Suc n) ?s2"
    using run_continues [OF t1] cb by simp
  have ih: "(\<forall>i. Suc n \<le> i \<and> i < k \<longrightarrow> passes input options i) \<and> k - Suc n \<le> timeouts ?s2"
  proof (rule Suc.hyps(1))
    show "d = k - Suc n" using Suc.hyps(2) by simp
    show "k \<in> set (invocations (trace (run input options None (Suc n) ?s2)))"
      using Suc.prems(1) step by simp
    show "k \<notin> set (invocations (trace ?s2))"
      using Suc.prems(2) nk retried_passes(3) [OF p, of s] by simp
    show "Suc n \<le> k" using nk by simp
  qed
  have "\<forall>i. n \<le> i \<and> i < k \<longrightarrow> passes input options i"
  proof (intro allI impI)
    fix i assume i: "n \<le> i \<and> i < k"
    show "passes input options i"
    proof (cases "i = n")
      case True
      with p show ?thesis by simp
    next
      case False
      with i have "Suc n \<le> i \<and> i < k" by simp
      with ih show ?thesis by blast
    qed
  qed
  moreover have "k - Suc n \<le> timeouts s - 1"
    using conjunct2 [OF ih] retried_passes(2) [OF p, of s] by simp
  then have "k - n \<le> timeouts s" using t nk by arith
  ultimately show ?case by simp
qed


subsection \<open>Defaults\<close>

lemma retries_defaulted [simp]: "retries (defaultedOptions options) = Some (budget options)"
  by (simp add: defaultedOptions_def budget_def split: option.splits)

lemma signal_defaulted [simp]: "signal (defaultedOptions options) = signal options"
  by (simp add: defaultedOptions_def)

lemma verdict_defaulted [simp]: "verdict (defaultedOptions options) fae = verdict options fae"
  by (simp add: defaultedOptions_def verdict_def split: option.splits)

lemma observer_result_defaulted [simp]:
  "observer_result (defaultedOptions options) fae = observer_result options fae"
  by (simp add: defaultedOptions_def observer_result_def split: option.splits)

lemma decorate_defaulted:
  "decorateErrorWithCounts e n (defaultedOptions options)
   = FailedAttemptError (case message_of e of None \<Rightarrow> [] | Some m \<Rightarrow> m) e n
       (budget options - (int n - 1))"
  by (simp add: decorateErrorWithCounts_def newFailedAttemptError_def Let_def)

lemma cause_decorate [simp]: "cause (decorateErrorWithCounts e n options) = e"
  by (simp add: decorateErrorWithCounts_def newFailedAttemptError_def Let_def)

lemma verdict_True:
  "verdict options fae = Returns True \<longleftrightarrow> (\<forall>p. shouldRetry options = Some p \<longrightarrow> p fae = Returns True)"
  by (simp add: verdict_def split: option.splits)

lemma observer_result_Returns:
  "observer_result options fae = Returns () \<longleftrightarrow>
   (\<forall>g. onFailedAttempt options = Some g \<longrightarrow> g fae = Returns ())"
  by (simp add: observer_result_def split: option.splits)

lemma passes_defaulted:
  "passes input (defaultedOptions options) i \<longleftrightarrow>
   (\<exists>e. input i = Throws e \<and> candidate e
        \<and> (\<forall>p. shouldRetry options = Some p \<longrightarrow>
               p (decorateErrorWithCounts e i (defaultedOptions options)) = Returns True)
        \<and> (\<forall>g. onFailedAttempt options = Some g \<longrightarrow>
               g (decorateErrorWithCounts e i (defaultedOptions options)) = Returns ()))"
  by (cases "input i") (simp_all add: passes_def verdict_True observer_result_Returns)

text \<open>The session at the start: nothing traced, promise pending, full budget.\<close>

definition initial :: "Options \<Rightarrow> session" where
  "initial options =
     addAbortListener (defaultedOptions options) (operation (defaultedOptions options))"

lemma pRetry_run:
  "pRetry input options abort_at = run input (defaultedOptions options) abort_at 1 (initial options)"
  by (simp add: pRetry_def initial_def Let_def)

lemma initial_fields [simp]:
  "trace (initial options) = []" "promise (initial options) = None"
  "timeouts (initial options) = nat (budget options)" "errors (initial options) = []"
  by (simp_all add: initial_def addAbortListener_def operation_def split: option.splits)

lemma reach_attempt:
  assumes "\<forall>i. 1 \<le> i \<and> i < k \<longrightarrow> passes input (defaultedOptions options) i"
    "int k \<le> budget options + 1" "1 \<le> k"
  obtains s' where
    "pRetry input options None = run input (defaultedOptions options) None k s'"
    "promise s' = None" "invocations (trace s') = [1..<k]" "settle_calls (trace s') = []"
proof -
  have "k - 1 \<le> timeouts (initial options)" using assms(2,3) by simp
  from run_passes [OF assms(1) this assms(3)] that show ?thesis
    by (auto simp: pRetry_run)
qed

lemma reached_attempt:
  assumes "Invoke k \<in> set (trace (pRetry input options None))" "1 \<le> k"
  obtains s' where
    "pRetry input options None = run input (defaultedOptions options) None k s'"
    "promise s' = None" "invocations (trace s') = [1..<k]" "settle_calls (trace s') = []"
proof -
  have "k \<in> set (invocations (trace (run input (defaultedOptions options) None 1 (initial options))))"
    using assms(1) by (simp add: Invoke_invocations pRetry_run)
  then have "(\<forall>i. 1 \<le> i \<and> i < k \<longrightarrow> passes input (defaultedOptions options) i)
             \<and> k - 1 \<le> timeouts (initial options)"
    using assms(2) by (intro run_reaches) simp_all
  from run_passes [OF conjunct1 [OF this] conjunct2 [OF this] assms(2)] that show ?thesis
    by (auto simp: pRetry_run)
qed

subsection \<open>The last attempt of a session without cancellation\<close>

lemma last_attempt_success:
  assumes "input k = Returns v"
  shows "run input options None k s = resolve v (cleanUp (log (Invoke k) s))"
proof -
  have "attempt_callback input options None k s = resolve v (cleanUp (log (Invoke k) s))"
    using assms by (simp add: attempt_callback_def Let_def)
  then show ?thesis using run_stops [of input options None k s] by simp
qed

lemma last_attempt_fatal:
  assumes "input k = Throws e" "inner_try options None e k (log (Invoke k) s) = (Throws x, log (Invoke k) s)"
  shows "run input options None k s
         = reject (decorateErrorWithCounts x k options) (cleanUp (log (Invoke k) s))"
proof -
  have "attempt_callback input options None k s
         = reject (decorateErrorWithCounts x k options) (cleanUp (log (Invoke k) s))"
    using assms by (simp add: attempt_callback_def Let_def)
  then show ?thesis using run_stops [of input options None k s] by simp
qed

lemma last_attempt_observer_throws:
  assumes "input k = Throws e" "candidate e"
    "verdict options (decorateErrorWithCounts e k options) = Returns True"
    "observer_result options (decorateErrorWithCounts e k options) = Throws x"
  shows "run input options None k s
         = reject (decorateErrorWithCounts x k options)
             (cleanUp (s\<lparr>trace := trace s @ Invoke k
                 # consulted options (decorateErrorWithCounts e k options)
                 @ notified options (decorateErrorWithCounts e k options)\<rparr>))"
proof -
  have "attempt_callback input options None k s
         = reject (decorateErrorWithCounts x k options)
             (cleanUp (s\<lparr>trace := trace s @ Invoke k
                 # consulted options (decorateErrorWithCounts e k options)
                 @ notified options (decorateErrorWithCounts e k options)\<rparr>))"
    using assms
    by (simp add: attempt_callback_def inner_try_candidate await_shouldRetry_None
        await_onFailedAttempt_None log_def Let_def)
  then show ?thesis using run_stops [of input options None k s] by simp
qed

lemma consulted_notified_invocations [simp]:
  "invocations (consulted options fae) = []" "invocations (notified options fae) = []"
  by (simp_all add: consulted_def notified_def split: option.splits)


subsection \<open>Attempt numbers are consecutive\<close>

lemma dispatch_timer_same:
  assumes "timer (dispatch options abort_at p s)"
  shows "dispatch options abort_at p s = s"
proof (rule ccontr)
  assume "dispatch options abort_at p s \<noteq> s"
  then have "dispatch options abort_at p s = abortHandler options (s\<lparr>listener := False\<rparr>)"
    by (simp add: dispatch_def split: if_splits)
  with assms show False by simp
qed

lemma dispatch_trace:
  "trace (dispatch options abort_at p s) = trace s
   \<or> (\<exists>r. trace (dispatch options abort_at p s) = trace s @ [Reject r])"
  by (simp add: dispatch_def abortHandler_def)

lemma dispatch_invocations [simp]:
  "invocations (trace (dispatch options abort_at p s)) = invocations (trace s)"
  using dispatch_trace [of options abort_at p s] by auto

lemma run_invocations:
  "\<exists>m\<ge>n. invocations (trace (run input options abort_at n s))
          = invocations (trace s) @ [n..<Suc m]"
proof (induction input options abort_at n s rule: run.induct)
  case (1 input options abort_at n s)
  let ?s1 = "attempt_callback input options abort_at n s"
  let ?s2 = "dispatch options abort_at (Backoff n) ?s1"
  have i1: "invocations (trace ?s1) = invocations (trace s) @ [n..<Suc n]"
    by (simp add: attempt_callback_invocations)
  show ?case
  proof (cases "timer ?s1 \<and> timer ?s2")
    case False
    then have "run input options abort_at n s = ?s1 \<or> run input options abort_at n s = ?s2"
      by (auto simp: run.simps [of _ _ _ n] Let_def)
    then have "invocations (trace (run input options abort_at n s)) = invocations (trace s) @ [n..<Suc n]"
      using i1 by auto
    then show ?thesis by blast
  next
    case True
    then have r: "run input options abort_at n s = run input options abort_at (Suc n) (?s2\<lparr>timer := False\<rparr>)"
      by (simp add: run.simps [of _ _ _ n] Let_def)
    from True "1.IH" [OF refl _ refl] obtain m where m: "Suc n \<le> m"
      "invocations (trace (run input options abort_at (Suc n) (?s2\<lparr>timer := False\<rparr>)))
       = invocations (trace (?s2\<lparr>timer := False\<rparr>)) @ [Suc n..<Suc m]"
      by blast
    have "[n..<Suc m] = n # [Suc n..<Suc m]" using m(1) by (simp add: upt_conv_Cons)
    then have "invocations (trace (run input options abort_at n s)) = invocations (trace s) @ [n..<Suc m]"
      using r m(2) i1 by simp
    then show ?thesis using m(1) by (meson Suc_leD)
  qed
qed

subsection \<open>Type errors\<close>

lemma unrecognised_not_network:
  assumes "\<forall>m. message_of e = Some m \<longrightarrow> m \<notin> set errorMessages"
  shows "\<not> isNetworkError e"
proof (cases "message_of e")
  case None
  then show ?thesis by (simp add: isNetworkError_def)
next
  case (Some m)
  with assms have "m \<notin> set errorMessages" by simp
  then have "m \<noteq> ''Load failed''" by (auto simp: errorMessages_def)
  with Some \<open>m \<notin> set errorMessages\<close> show ?thesis by (simp add: isNetworkError_def Let_def)
qed

lemma first_attempt_fatal:
  assumes "input 1 = Throws e"
    and "\<And>s. inner_try (defaultedOptions options) abort_at e 1 s = (Throws x, s)"
  shows "pRetry input options abort_at
         = reject (decorateErrorWithCounts x 1 (defaultedOptions options))
             (cleanUp (dispatch (defaultedOptions options) abort_at (AwaitInput 1)
                (log (Invoke 1) (initial options))))"
proof -
  let ?opts = "defaultedOptions options"
  have "attempt_callback input ?opts abort_at 1 (initial options)
         = reject (decorateErrorWithCounts x 1 ?opts)
             (cleanUp (dispatch ?opts abort_at (AwaitInput 1) (log (Invoke 1) (initial options))))"
    using assms by (simp add: attempt_callback_def Let_def)
  then show ?thesis
    using run_stops [of input ?opts abort_at 1 "initial options"] by (simp add: pRetry_run)
qed

lemma dispatch_initial_promise:
  "promise (dispatch options abort_at p (log e (initial options'))) = None
   \<or> (\<exists>r. promise (dispatch options abort_at p (log e (initial options'))) = Some (Rejected r))"
  by (simp add: dispatch_def abortHandler_def)

subsection \<open>The trace only grows\<close>

lemma attempt_callback_prefix:
  "\<exists>evs. trace (attempt_callback input options abort_at n s) = trace s @ evs"
proof (cases "input n")
  case (Returns v)
  then show ?thesis
    using attempt_callback_success_trace [of input n v options abort_at s] by auto
next
  case (Throws e)
  have "\<exists>evs. trace (attempt_callback input options abort_at n s) = trace s @ Invoke n # evs
            \<and> list_all (\<lambda>_. True) evs"
    by (rule attempt_callback_failed_trace [where e = e]) (simp_all add: Throws)
  then show ?thesis by auto
qed

lemma run_prefix: "\<exists>evs. trace (run input options abort_at n s) = trace s @ evs"
proof (induction input options abort_at n s rule: run.induct)
  case (1 input options abort_at n s)
  let ?s1 = "attempt_callback input options abort_at n s"
  let ?s2 = "dispatch options abort_at (Backoff n) ?s1"
  obtain evs1 where e1: "trace ?s1 = trace s @ evs1" using attempt_callback_prefix by blast
  obtain evs2 where e2: "trace ?s2 = trace s @ evs2"
    using dispatch_trace [of options abort_at "Backoff n" ?s1] e1 by auto
  show ?case
  proof (cases "timer ?s1 \<and> timer ?s2")
    case False
    then have "run input options abort_at n s = ?s1 \<or> run input options abort_at n s = ?s2"
      by (auto simp: run.simps [of _ _ _ n] Let_def)
    then show ?thesis using e1 e2 by auto
  next
    case True
    then have r: "run input options abort_at n s = run input options abort_at (Suc n) (?s2\<lparr>timer := False\<rparr>)"
      by (simp add: run.simps [of _ _ _ n] Let_def)
    from True "1.IH" [OF refl _ refl] obtain evs where
      "trace (run input options abort_at (Suc n) (?s2\<lparr>timer := False\<rparr>))
       = trace (?s2\<lparr>timer := False\<rparr>) @ evs"
      by blast
    then show ?thesis using r e2 by simp
  qed
qed

subsection \<open>Network failures reported as type errors\<close>

lemma recognised_network_error:
  assumes "instanceofTypeError e" "name_of e = Some ''TypeError''" "message_of e = Some m"
    "m \<in> set errorMessages" "m = ''Load failed'' \<longrightarrow> stack_of e = None"
  shows "isNetworkError e"
proof -
  have "instanceofError e" using assms(1) by (cases e) simp_all
  then show ?thesis using assms by (simp add: isNetworkError_def isError_def Let_def)
qed

lemma candidate_consulted:
  assumes "input n = Throws e" "candidate e" "shouldRetry options = Some p"
  shows "ShouldRetry (decorateErrorWithCounts e n options)
         \<in> set (trace (attempt_callback input options None n s))"
  using assms
  by (auto simp: attempt_callback_def inner_try_candidate await_shouldRetry_None
      await_onFailedAttempt_None retry_eq consulted_def log_def Let_def
      split: completion.splits bool.splits)

lemma shouldRetry_defaulted: "\<exists>p. shouldRetry (defaultedOptions options) = Some p"
  by (simp add: defaultedOptions_def split: option.splits)

subsection \<open>A session without a listener\<close>

lemma await_shouldRetry_no_listener:
  "\<not> listener s \<Longrightarrow>
   await_shouldRetry options abort_at fae n s = await_shouldRetry options None fae n s"
  by (simp add: await_shouldRetry_def dispatch_no_listener split: option.splits)

lemma await_onFailedAttempt_no_listener:
  "\<not> listener s \<Longrightarrow>
   await_onFailedAttempt options abort_at fae n s = await_onFailedAttempt options None fae n s"
  by (simp add: await_onFailedAttempt_def dispatch_no_listener split: option.splits)

lemma inner_try_no_listener:
  assumes "\<not> listener s"
  shows "inner_try options abort_at e n s = inner_try options None e n s"
proof (cases "candidate e")
  case False
  then show ?thesis by (auto simp: candidate_def inner_try_def)
next
  case True
  let ?fae = "decorateErrorWithCounts e n options"
  let ?sc = "s\<lparr>trace := trace s @ consulted options ?fae\<rparr>"
  have 1: "await_shouldRetry options abort_at ?fae n s = (verdict options ?fae, ?sc)"
    using await_shouldRetry_no_listener [OF assms, of options abort_at ?fae n]
    by (simp add: await_shouldRetry_None)
  have 0: "await_shouldRetry options None ?fae n s = (verdict options ?fae, ?sc)"
    by (simp add: await_shouldRetry_None)
  show ?thesis
  proof (cases "verdict options ?fae")
    case (Throws x)
    then show ?thesis by (simp add: inner_try_candidate [OF True] 0 1 Let_def)
  next
    case (Returns go)
    show ?thesis
    proof (cases go)
      case True
      have "await_onFailedAttempt options abort_at ?fae n ?sc
            = await_onFailedAttempt options None ?fae n ?sc"
        using assms by (intro await_onFailedAttempt_no_listener) simp
      with Returns True show ?thesis
        by (simp add: inner_try_candidate [OF \<open>candidate e\<close>] 0 1 Let_def)
    next
      case False
      have "await_onFailedAttempt options abort_at ?fae n (reject e (stop ?sc))
            = await_onFailedAttempt options None ?fae n (reject e (stop ?sc))"
        using assms by (intro await_onFailedAttempt_no_listener) simp
      with Returns False show ?thesis
        by (simp add: inner_try_candidate [OF \<open>candidate e\<close>] 0 1 Let_def)
    qed
  qed
qed

lemma attempt_callback_no_listener:
  "\<not> listener s \<Longrightarrow>
   attempt_callback input options abort_at n s = attempt_callback input options None n s"
  by (cases "input n")
    (simp_all add: attempt_callback_def dispatch_no_listener
       inner_try_no_listener [where abort_at = abort_at] Let_def)

lemma decorate_signal [simp]:
  "decorateErrorWithCounts e n (options\<lparr>signal := x\<rparr>) = decorateErrorWithCounts e n options"
  by (simp add: decorateErrorWithCounts_def)

lemma inner_try_signal:
  "inner_try (options\<lparr>signal := x\<rparr>) None e n s = inner_try options None e n s"
proof (cases "candidate e")
  case False
  then show ?thesis by (auto simp: candidate_def inner_try_def)
next
  case True
  have a: "await_shouldRetry (options\<lparr>signal := x\<rparr>) None f n t
           = await_shouldRetry options None f n t"
    "await_onFailedAttempt (options\<lparr>signal := x\<rparr>) None f n t
           = await_onFailedAttempt options None f n t" for f t
    by (simp_all add: await_shouldRetry_def await_onFailedAttempt_def split: option.splits)
  show ?thesis
    by (simp only: inner_try_candidate [OF True] a decorate_signal)
qed

lemma attempt_callback_signal:
  "attempt_callback input (options\<lparr>signal := x\<rparr>) None n s
   = attempt_callback input options None n s"
  by (cases "input n")
    (auto simp: attempt_callback_def inner_try_signal Let_def split: prod.splits completion.splits)

lemma run_no_listener:
  "\<not> listener s \<Longrightarrow>
   run input options abort_at n s = run input (options\<lparr>signal := x\<rparr>) abort_at' n s"
proof (induction input options abort_at n s rule: run.induct)
  case (1 input options abort_at n s)
  let ?c = "attempt_callback input options None n s"
  have l: "attempt_callback input options abort_at n s = ?c"
    using "1.prems" by (rule attempt_callback_no_listener)
  have r: "attempt_callback input (options\<lparr>signal := x\<rparr>) abort_at' n s = ?c"
    using attempt_callback_no_listener [OF "1.prems", of input "options\<lparr>signal := x\<rparr>" abort_at' n]
    by (simp add: attempt_callback_signal)
  show ?case
  proof (cases "timer ?c")
    case False
    then show ?thesis
      using run_stops [of input options abort_at n s]
        run_stops [of input "options\<lparr>signal := x\<rparr>" abort_at' n s] l r by simp
  next
    case True
    then have "passes input options n" "0 < timeouts s"
      using attempt_callback_retrying by blast+
    then have "?c = retried input options n s" by (rule attempt_callback_passes)
    then have nl: "\<not> listener ?c" using "1.prems" by simp
    then have d: "dispatch options abort_at (Backoff n) ?c = ?c"
      "dispatch (options\<lparr>signal := x\<rparr>) abort_at' (Backoff n) ?c = ?c"
      by (simp_all add: dispatch_no_listener)
    have "run input options abort_at (Suc n) (?c\<lparr>timer := False\<rparr>)
          = run input (options\<lparr>signal := x\<rparr>) abort_at' (Suc n) (?c\<lparr>timer := False\<rparr>)"
      using "1.IH" [OF refl _ refl] l d True nl by simp
    then show ?thesis
      using True l r d
      by (simp add: run.simps [of input options abort_at n s]
          run.simps [of input "options\<lparr>signal := x\<rparr>" abort_at' n s] Let_def)
  qed
qed

subsection \<open>Calls of resolve and reject\<close>




subsection \<open>The records handed to the predicate and to the observer\<close>

definition attempt_record :: "(nat \<Rightarrow> jsval completion) \<Rightarrow> Options \<Rightarrow> nat \<Rightarrow> jsval \<Rightarrow> bool" where
  "attempt_record input options n f \<longleftrightarrow>
     input n = Throws (cause f) \<and> f = decorateErrorWithCounts (cause f) n options"

definition attempt_event :: "(nat \<Rightarrow> jsval completion) \<Rightarrow> Options \<Rightarrow> nat \<Rightarrow> event \<Rightarrow> bool" where
  "attempt_event input options n ev =
     (case ev of
        Invoke _ \<Rightarrow> False
      | ShouldRetry f \<Rightarrow> attempt_record input options n f
      | OnFailedAttempt f \<Rightarrow> attempt_record input options n f
      | _ \<Rightarrow> True)"

lemma attempt_callback_events:
  "\<exists>evs. trace (attempt_callback input options abort_at n s) = trace s @ Invoke n # evs
         \<and> list_all (attempt_event input options n) evs"
proof (cases "input n")
  case (Returns v)
  from attempt_callback_success_trace [of input n v options abort_at s] Returns
  obtain evs where t: "trace (attempt_callback input options abort_at n s)
                 = trace s @ Invoke n # evs @ [Resolve v]"
    and r: "list_all (\<lambda>ev. \<exists>r. ev = Reject r) evs"
    by blast
  have "list_all (attempt_event input options n) evs"
    using r by (induction evs) (auto simp: attempt_event_def)
  then have "list_all (attempt_event input options n) (evs @ [Resolve v])"
    by (simp add: attempt_event_def)
  with t show ?thesis by auto
next
  case (Throws e)
  show ?thesis
    by (rule attempt_callback_failed_trace [where e = e])
      (simp_all add: Throws attempt_event_def attempt_record_def)
qed

lemma observed_attempt_events:
  "list_all (attempt_event input options n) evs \<Longrightarrow> (m, f) \<in> set (observed c evs) \<Longrightarrow>
   m = c \<and> attempt_record input options n f"
proof (induction evs)
  case (Cons a evs)
  then show ?case by (cases a) (auto simp: attempt_event_def)
qed simp

lemma observed_attempt_callback:
  assumes "Suc (length (invocations (trace s))) = n"
    and "\<forall>(m, f) \<in> set (observed 0 (trace s)). attempt_record input options m f"
  shows "\<forall>(m, f) \<in> set (observed 0 (trace (attempt_callback input options abort_at n s))).
           attempt_record input options m f"
proof -
  obtain evs where t: "trace (attempt_callback input options abort_at n s) = trace s @ Invoke n # evs"
    and e: "list_all (attempt_event input options n) evs"
    using attempt_callback_events by blast
  have "observed 0 (trace (attempt_callback input options abort_at n s))
        = observed 0 (trace s) @ observed n evs"
    using assms(1) by (simp add: t observed_append)
  then show ?thesis using assms(2) observed_attempt_events [OF e] by auto
qed

lemma observed_dispatch [simp]:
  "observed k (trace (dispatch options abort_at p s)) = observed k (trace s)"
  using dispatch_trace [of options abort_at p s] by (auto simp: observed_append)

lemma run_observed:
  assumes "Suc (length (invocations (trace s))) = n"
    and "\<forall>(m, f) \<in> set (observed 0 (trace s)). attempt_record input options m f"
  shows "\<forall>(m, f) \<in> set (observed 0 (trace (run input options abort_at n s))).
           attempt_record input options m f"
  using assms
proof (induction input options abort_at n s rule: run.induct)
  case (1 input options abort_at n s)
  let ?s1 = "attempt_callback input options abort_at n s"
  let ?s2 = "dispatch options abort_at (Backoff n) ?s1"
  have o1: "\<forall>(m, f) \<in> set (observed 0 (trace ?s1)). attempt_record input options m f"
    using "1.prems" by (rule observed_attempt_callback)
  show ?case
  proof (cases "timer ?s1 \<and> timer ?s2")
    case False
    then have "run input options abort_at n s = ?s1 \<or> run input options abort_at n s = ?s2"
      by (auto simp: run.simps [of _ _ _ n] Let_def)
    then show ?thesis using o1 by auto
  next
    case True
    then have r: "run input options abort_at n s
                  = run input options abort_at (Suc n) (?s2\<lparr>timer := False\<rparr>)"
      by (simp add: run.simps [of _ _ _ n] Let_def)
    have "Suc (length (invocations (trace (?s2\<lparr>timer := False\<rparr>)))) = Suc n"
      using "1.prems"(1) by (simp add: attempt_callback_invocations)
    moreover have "\<forall>(m, f) \<in> set (observed 0 (trace (?s2\<lparr>timer := False\<rparr>))).
                     attempt_record input options m f"
      using o1 by simp
    ultimately show ?thesis
      using "1.IH" [OF refl _ refl] True r by simp
  qed
qed

section \<open>Sessions on concrete inputs\<close>

lemmas engine_defs =
  pRetry_def defaultedOptions_def operation_def addAbortListener_def attempt_callback_def
  inner_try_def await_shouldRetry_def await_onFailedAttempt_def dispatch_def abortHandler_def
  decorateErrorWithCounts_def newFailedAttemptError_def newError_def newTypeError_def
  retry_def mainError_def cleanUp_def stop_def reject_def resolve_def settle_def log_def
  isNetworkError_def isError_def errorMessages_def budget_def Let_def

text \<open>Options and operations used below.\<close>

definition no_options :: Options where
  "no_options = \<lparr> onFailedAttempt = None, retries = None, shouldRetry = None, signal = None \<rparr>"

definition boom :: jsval where
  "boom = newError (Some ''boom'')"

definition fails_twice :: "nat \<Rightarrow> jsval completion" where
  "fails_twice n = (if n < 3 then Throws boom else Returns (NonError ''ok'' None))"

definition always_fails :: "nat \<Rightarrow> jsval completion" where
  "always_fails n = Throws boom"

definition veto_options :: Options where
  "veto_options = \<lparr> onFailedAttempt = None, retries = None,
                     shouldRetry = Some (\<lambda>_. Returns False), signal = None \<rparr>"

lemma candidate_boom [simp]: "candidate boom"
  by (simp add: candidate_def boom_def newError_def)

definition observer_fault :: jsval where
  "observer_fault = newError (Some ''observer'')"

definition throwing_observer :: Options where
  "throwing_observer = \<lparr> onFailedAttempt = Some (\<lambda>_. Throws observer_fault), retries = None,
                          shouldRetry = None, signal = None \<rparr>"

definition halt :: jsval where
  "halt = AbortError ''halt'' (newError (Some ''halt''))"

definition aborts_on_second :: "nat \<Rightarrow> jsval completion" where
  "aborts_on_second n = (if n = 2 then Throws halt else Throws boom)"

definition bad_argument :: jsval where
  "bad_argument = newTypeError ''type-error-fixture''"

definition load_failed_with_stack :: jsval where
  "load_failed_with_stack =
     ErrorObject TypeErrorClass ''TypeError'' ''Load failed'' (Some ''fetch@[native code]'')"

definition failed_to_fetch :: jsval where
  "failed_to_fetch = newTypeError ''Failed to fetch''"

definition aborted_signal :: AbortSignal where
  "aborted_signal = \<lparr> aborted = True, reason = NonError ''cancelled'' None \<rparr>"

definition with_aborted_signal :: Options where
  "with_aborted_signal = no_options\<lparr>signal := Some aborted_signal\<rparr>"

text \<open>
  Claim C1: when \<^verbatim>\<open>shouldRetry\<close> returns false for the failed attempt record of attempt
  \<open>k\<close>, the session makes exactly \<open>k\<close> invocations, the promise rejects with the original
  error, and \<^verbatim>\<open>onFailedAttempt\<close> is not invoked for that attempt after the veto.

  The session below has an operation that always throws \<^verbatim>\<open>new Error("boom")\<close>, a predicate
  that always returns false and an observer that returns normally. The operation is invoked
  once and the promise is rejected with the original error, but lines 160-161 do not leave
  the block: the observer is called with the record of attempt 1 after the veto (line 165),
  the stopped scheduler refuses the retry (line 168), and \<^verbatim>\<open>reject\<close> is called a second
  time, without effect (line 174).
\<close>

theorem veto_still_notifies_observer:
  "trace (pRetry (\<lambda>_. Throws (newError (Some ''boom'')))
            \<lparr> onFailedAttempt = Some (\<lambda>_. Returns ()), retries = None,
              shouldRetry = Some (\<lambda>_. Returns False), signal = None \<rparr> None)
   = [Invoke 1,
      ShouldRetry (FailedAttemptError ''boom'' (newError (Some ''boom'')) 1 10),
      Reject (newError (Some ''boom'')),
      OnFailedAttempt (FailedAttemptError ''boom'' (newError (Some ''boom'')) 1 10),
      Reject (FailedAttemptError ''boom''
                (FailedAttemptError ''boom'' (newError (Some ''boom'')) 1 10) 1 10)]
   \<and> promise (pRetry (\<lambda>_. Throws (newError (Some ''boom'')))
            \<lparr> onFailedAttempt = Some (\<lambda>_. Returns ()), retries = None,
              shouldRetry = Some (\<lambda>_. Returns False), signal = None \<rparr> None)
   = Some (Rejected (newError (Some ''boom'')))"
  by (simp add: engine_defs run.simps)

text \<open>The same at every attempt \<open>k\<close> of a session without cancellation: after a veto
  no further attempt is made and the promise is rejected with the original error, and the
  observer (the configured one, or the default that does nothing) is called with the
  record of attempt \<open>k\<close> all the same.\<close>

lemma last_attempt_veto:
  assumes "input k = Throws e" and "candidate e"
    and "verdict options (decorateErrorWithCounts e k options) = Returns False"
    and "promise s = None"
  shows "promise (run input options None k s) = Some (Rejected e)
         \<and> invocations (trace (run input options None k s)) = invocations (trace s) @ [k]
         \<and> (\<forall>g. onFailedAttempt options = Some g \<longrightarrow>
                OnFailedAttempt (decorateErrorWithCounts e k options)
                \<in> set (trace (run input options None k s)))"
proof -
  let ?c = "attempt_callback input options None k s"
  have "\<not> timer ?c \<and> promise ?c = Some (Rejected e)
        \<and> (\<forall>g. onFailedAttempt options = Some g \<longrightarrow>
                OnFailedAttempt (decorateErrorWithCounts e k options) \<in> set (trace ?c))"
    using assms
    by (auto simp: attempt_callback_def inner_try_candidate await_shouldRetry_None
        await_onFailedAttempt_None retry_eq notified_def log_def Let_def
        split: completion.splits)
  then show ?thesis
    using run_stops [of input options None k s] by (simp add: attempt_callback_invocations)
qed

lemma veto_ends_session:
  assumes "Invoke k \<in> set (trace (pRetry input options None))" and "1 \<le> k"
    and "input k = Throws e" and "candidate e"
    and "shouldRetry options = Some p"
    and "p (decorateErrorWithCounts e k (defaultedOptions options)) = Returns False"
  shows "invocations (trace (pRetry input options None)) = [1..<Suc k]
         \<and> promise (pRetry input options None) = Some (Rejected e)
         \<and> OnFailedAttempt (decorateErrorWithCounts e k (defaultedOptions options))
             \<in> set (trace (pRetry input options None))"
proof -
  let ?opts = "defaultedOptions options"
  let ?fae = "decorateErrorWithCounts e k ?opts"
  from reached_attempt [OF assms(1,2)] obtain s' where
    s': "pRetry input options None = run input ?opts None k s'"
      "promise s' = None" "invocations (trace s') = [1..<k]"
    by blast
  have "verdict options ?fae = Returns False" using assms(5,6) by (simp add: verdict_def)
  then have v: "verdict ?opts ?fae = Returns False" by simp
  obtain g where g: "onFailedAttempt ?opts = Some g"
    by (cases "onFailedAttempt options") (simp_all add: defaultedOptions_def)
  from last_attempt_veto [where input = input and k = k and e = e and options = ?opts and s = s']
    assms(3,4) v s'(2) g
  show ?thesis using s'(1,3) assms(2) by simp
qed

text \<open>
  Claim C6: when the operation throws a value that is not an \<^verbatim>\<open>Error\<close>, it is invoked
  exactly once and the promise rejects with an error whose message is
  \<^verbatim>\<open>Non-error was thrown: "<value>". You should only throw errors.\<close>

  The operation below throws a symbol. The template literal of line 146 cannot convert
  it: the conversion itself throws inside the \<^verbatim>\<open>try\<close> block, and the promise is rejected
  with the message of that conversion error. The operation is invoked once.
\<close>

theorem symbol_thrown_message:
  "promise (pRetry (\<lambda>_. Throws (SymbolValue ''boom''))
              \<lparr> onFailedAttempt = None, retries = None, shouldRetry = None, signal = None \<rparr>
              None)
   = Some (Rejected (FailedAttemptError ''Cannot convert a Symbol value to a string''
                       (newTypeError ''Cannot convert a Symbol value to a string'') 1 10))
   \<and> invocations (trace (pRetry (\<lambda>_. Throws (SymbolValue ''boom''))
              \<lparr> onFailedAttempt = None, retries = None, shouldRetry = None, signal = None \<rparr>
              None)) = [1]"
  by (simp add: engine_defs run.simps)


text \<open>For a value that a template literal converts, thrown on the first attempt, the
  message is the one of line 146 and the operation is invoked once.\<close>

lemma non_error_message:
  assumes "input 1 = Throws (NonError str pm)"
  shows "promise (pRetry input options None)
         = Some (Rejected (FailedAttemptError
              (''Non-error was thrown: '' @ [CHR 0x22] @ str @ [CHR 0x22]
                 @ ''. You should only throw errors.'')
              (newTypeError (''Non-error was thrown: '' @ [CHR 0x22] @ str @ [CHR 0x22]
                 @ ''. You should only throw errors.''))
              1 (budget options)))
         \<and> invocations (trace (pRetry input options None)) = [1]"
proof -
  let ?msg = "''Non-error was thrown: '' @ [CHR 0x22] @ str @ [CHR 0x22]
                 @ ''. You should only throw errors.''"
  have "inner_try (defaultedOptions options) None (NonError str pm) 1 s
        = (Throws (newTypeError ?msg), s)" for s
    by (simp add: inner_try_def)
  from first_attempt_fatal [where input = input and e = "NonError str pm"
      and x = "newTypeError ?msg", OF assms this]
  show ?thesis by (simp add: decorate_defaulted newTypeError_def)
qed

section \<open>Success after retries\<close>

text \<open>As stated (for every configuration), claim C9 fails: with a predicate that returns
  false, an operation that throws a plain error twice and would succeed on attempt 3, within
  the default budget, is invoked once and the promise is rejected.\<close>

theorem veto_prevents_success:
  "fails_twice 1 = Throws boom \<and> fails_twice 2 = Throws boom
   \<and> fails_twice 3 = Returns (NonError ''ok'' None) \<and> int 3 \<le> budget veto_options + 1
   \<and> promise (pRetry fails_twice veto_options None) = Some (Rejected boom)
   \<and> invocations (trace (pRetry fails_twice veto_options None)) = [1]"
  by (simp add: fails_twice_def veto_options_def boom_def engine_defs run.simps)

text \<open>
  Claim C9, amended: in a session without cancellation, if on every attempt before \<open>k\<close> the
  operation throws a retryable candidate for which the configured predicate (if any) returns
  true and the configured observer (if any) returns normally, if the operation returns \<open>v\<close>
  on attempt \<open>k\<close>, and if \<open>k\<close> is at most the budget plus one, then the promise resolves
  with \<open>v\<close> and the operation has been invoked exactly \<open>k\<close> times, with the attempt
  numbers 1 to \<open>k\<close>.
\<close>

theorem succeeds_on_attempt:
  assumes "\<forall>i. 1 \<le> i \<and> i < k \<longrightarrow>
             (\<exists>e. input i = Throws e \<and> candidate e
                \<and> (\<forall>p. shouldRetry options = Some p \<longrightarrow>
                       p (decorateErrorWithCounts e i (defaultedOptions options)) = Returns True)
                \<and> (\<forall>g. onFailedAttempt options = Some g \<longrightarrow>
                       g (decorateErrorWithCounts e i (defaultedOptions options)) = Returns ()))"
    and "input k = Returns v" and "1 \<le> k" and "int k \<le> budget options + 1"
  shows "promise (pRetry input options None) = Some (Resolved v)
         \<and> invocations (trace (pRetry input options None)) = [1..<Suc k]"
proof -
  have "\<forall>i. 1 \<le> i \<and> i < k \<longrightarrow> passes input (defaultedOptions options) i"
    using assms(1) by (simp add: passes_defaulted)
  from reach_attempt [OF this assms(4,3)] obtain s' where
    s': "pRetry input options None = run input (defaultedOptions options) None k s'"
      "promise s' = None" "invocations (trace s') = [1..<k]"
    by blast
  have "pRetry input options None = resolve v (cleanUp (log (Invoke k) s'))"
    using s'(1) last_attempt_success [of input k v] assms(2) by simp
  then show ?thesis using s'(2,3) assms(3) by simp
qed

text \<open>The spec's example: two failures, success on the third attempt, default options.\<close>

theorem succeeds_on_attempt_witness:
  "promise (pRetry fails_twice no_options None) = Some (Resolved (NonError ''ok'' None))
   \<and> invocations (trace (pRetry fails_twice no_options None)) = [1, 2, 3]"
  using succeeds_on_attempt [of 3 fails_twice no_options "NonError ''ok'' None"]
  by (simp add: fails_twice_def no_options_def budget_def upt_rec)

section \<open>An observer that throws\<close>

text \<open>
  Claim C4: when \<^verbatim>\<open>onFailedAttempt\<close> throws or rejects on attempt \<open>k\<close>, no further attempt
  is made and the promise rejects with the value thrown by \<^verbatim>\<open>onFailedAttempt\<close>. The doc
  comment of the option says the same (line 52: the promise "will reject with the thrown
  error").

  The session below has an operation that always throws \<^verbatim>\<open>new Error("boom")\<close> and an
  observer that throws \<^verbatim>\<open>new Error("observer")\<close>. The operation is invoked once, but the
  promise is not rejected with the error the observer threw: lines 172-174 make a new
  \<^verbatim>\<open>FailedAttemptError\<close> from it and reject with that.
\<close>

theorem observer_throw_is_wrapped:
  "invocations (trace (pRetry always_fails throwing_observer None)) = [1]
   \<and> promise (pRetry always_fails throwing_observer None)
     = Some (Rejected (FailedAttemptError ''observer'' observer_fault 1 10))
   \<and> promise (pRetry always_fails throwing_observer None) \<noteq> Some (Rejected observer_fault)"
  by (simp add: always_fails_def throwing_observer_def observer_fault_def boom_def engine_defs
      run.simps)

text \<open>The same at every attempt \<open>k\<close> of a session without cancellation, for any thrown
  value \<open>x\<close>: when the predicate (if any) returned true and the observer throws \<open>x\<close>, no
  further attempt is made, and the promise is rejected with a \<^verbatim>\<open>FailedAttemptError\<close>
  whose cause is \<open>x\<close>, whose message is the \<^verbatim>\<open>message\<close> property of \<open>x\<close> (empty when \<open>x\<close>
  has none), and whose counters are those of attempt \<open>k\<close>.\<close>

lemma observer_throw_ends_session:
  assumes "Invoke k \<in> set (trace (pRetry input options None))" and "1 \<le> k"
    and "input k = Throws e" and "candidate e"
    and "\<forall>p. shouldRetry options = Some p \<longrightarrow>
           p (decorateErrorWithCounts e k (defaultedOptions options)) = Returns True"
    and "onFailedAttempt options = Some g"
    and "g (decorateErrorWithCounts e k (defaultedOptions options)) = Throws x"
  shows "invocations (trace (pRetry input options None)) = [1..<Suc k]
         \<and> promise (pRetry input options None)
           = Some (Rejected (FailedAttemptError (case message_of x of None \<Rightarrow> [] | Some m \<Rightarrow> m)
                               x k (budget options - (int k - 1))))"
proof -
  let ?opts = "defaultedOptions options"
  let ?fae = "decorateErrorWithCounts e k ?opts"
  from reached_attempt [OF assms(1,2)] obtain s' where
    s': "pRetry input options None = run input ?opts None k s'"
      "promise s' = None" "invocations (trace s') = [1..<k]"
    by blast
  have v: "verdict ?opts ?fae = Returns True" using assms(5) by (simp add: verdict_True)
  have "observer_result options ?fae = Throws x"
    using assms(6,7) by (simp add: observer_result_def)
  then have o: "observer_result ?opts ?fae = Throws x" by simp
  have "pRetry input options None
        = reject (decorateErrorWithCounts x k ?opts)
            (cleanUp (s'\<lparr>trace := trace s' @ Invoke k # consulted ?opts ?fae @ notified ?opts ?fae\<rparr>))"
    using s'(1) last_attempt_observer_throws
        [where input = input and k = k and e = e and options = ?opts and x = x and s = s'] assms(3,4) v o by simp
  then show ?thesis using s'(2,3) assms(2) by (simp add: decorate_defaulted)
qed

text \<open>An observer that throws the plain object \<^verbatim>\<open>{message: "hi"}\<close>: the record copies
  its message.\<close>

lemma observer_throws_plain_object:
  "promise (pRetry always_fails
              (no_options\<lparr>onFailedAttempt :=
                 Some (\<lambda>_. Throws (NonError ''[object Object]'' (Some ''hi'')))\<rparr>) None)
   = Some (Rejected (FailedAttemptError ''hi'' (NonError ''[object Object]'' (Some ''hi'')) 1 10))"
  by (simp add: always_fails_def no_options_def boom_def engine_defs run.simps)

section \<open>The abort marker\<close>

text \<open>As stated, claim C5 fails: the promise is not rejected with the error that the
  \<^verbatim>\<open>AbortError\<close> wraps, but with a fresh \<^verbatim>\<open>FailedAttemptError\<close> made from it.\<close>

theorem abort_marker_is_wrapped:
  "promise (pRetry aborts_on_second no_options None)
   = Some (Rejected (FailedAttemptError ''halt'' (newError (Some ''halt'')) 2 9))
   \<and> promise (pRetry aborts_on_second no_options None)
     \<noteq> Some (Rejected (originalError halt))"
  by (simp add: aborts_on_second_def no_options_def halt_def boom_def engine_defs run.simps)

text \<open>
  Claim C5, amended: in a session without cancellation in which attempt \<open>k\<close> takes place
  and the operation throws an \<^verbatim>\<open>AbortError\<close> there, the operation is invoked exactly
  \<open>k\<close> times whatever the budget, neither the predicate nor the observer is called for
  attempt \<open>k\<close>, and the promise is rejected with a \<^verbatim>\<open>FailedAttemptError\<close> whose cause is
  the \<^verbatim>\<open>originalError\<close> of the marker and whose counters are those of attempt \<open>k\<close>.
\<close>

theorem abort_marker_ends_session:
  assumes "Invoke k \<in> set (trace (pRetry input options None))" and "1 \<le> k"
    and "input k = Throws (AbortError m original)"
  shows "invocations (trace (pRetry input options None)) = [1..<Suc k]
         \<and> promise (pRetry input options None)
           = Some (Rejected (FailedAttemptError
                               (case message_of original of None \<Rightarrow> [] | Some m \<Rightarrow> m)
                               original k (budget options - (int k - 1))))
         \<and> (\<forall>f. (k, f) \<notin> set (observed 0 (trace (pRetry input options None))))"
proof -
  let ?opts = "defaultedOptions options"
  from reached_attempt [OF assms(1,2)] obtain s' where
    s': "pRetry input options None = run input ?opts None k s'"
      "promise s' = None" "invocations (trace s') = [1..<k]"
    by blast
  have "inner_try ?opts None (AbortError m original) k (log (Invoke k) s')
        = (Throws original, log (Invoke k) s')"
    by (simp add: inner_try_def)
  then have eq: "pRetry input options None
        = reject (decorateErrorWithCounts original k ?opts) (cleanUp (log (Invoke k) s'))"
    using s'(1) last_attempt_fatal
        [where input = input and k = k and e = "AbortError m original" and options = ?opts
           and x = original and s = s'] assms(3)
    by simp
  have "(k, f) \<notin> set (observed 0 (trace (pRetry input options None)))" for f
  proof
    assume "(k, f) \<in> set (observed 0 (trace (pRetry input options None)))"
    then have "(k, f) \<in> set (observed 0 (trace s'))"
      by (simp add: eq observed_append)
    then have "k \<le> 0 + length (invocations (trace s'))" using observed_bound by blast
    with s'(3) assms(2) show False by simp
  qed
  then show ?thesis using eq s'(2,3) assms(2) by (simp add: decorate_defaulted)
qed

theorem abort_marker_ends_session_witness:
  "invocations (trace (pRetry aborts_on_second no_options None)) = [1, 2]
   \<and> promise (pRetry aborts_on_second no_options None)
     = Some (Rejected (FailedAttemptError ''halt'' (newError (Some ''halt'')) 2 9))
   \<and> (\<forall>f. (2, f) \<notin> set (observed 0 (trace (pRetry aborts_on_second no_options None))))"
proof -
  have i: "Invoke 2 \<in> set (trace (pRetry aborts_on_second no_options None))"
    by (simp add: aborts_on_second_def no_options_def halt_def boom_def engine_defs run.simps)
  show ?thesis
    using abort_marker_ends_session [of 2 aborts_on_second no_options "''halt''"
        "newError (Some ''halt'')"] i
    by (simp add: aborts_on_second_def no_options_def halt_def newError_def budget_def upt_rec)
qed


section \<open>Type errors\<close>

text \<open>
  Claim C7: when the operation throws a \<^verbatim>\<open>TypeError\<close> whose message is none of the
  recognised network-failure messages, the operation is invoked exactly once and the
  session rejects, whatever the options (the budget among them) and whether or not the
  signal fires. Without cancellation the rejection is the decorated record of that error.
  The operation throws on its first call; what it would do on later calls is free.
\<close>

theorem type_error_not_retried:
  assumes "input 1 = Throws e" and "instanceofTypeError e"
    and "\<forall>m. message_of e = Some m \<longrightarrow> m \<notin> set errorMessages"
  shows "invocations (trace (pRetry input options abort_at)) = [1]
         \<and> (\<exists>x. promise (pRetry input options abort_at) = Some (Rejected x))
         \<and> (abort_at = None \<longrightarrow>
              promise (pRetry input options abort_at)
              = Some (Rejected (decorateErrorWithCounts e 1 (defaultedOptions options))))"
proof -
  let ?opts = "defaultedOptions options"
  have n: "\<not> isNetworkError e" using assms(3) by (rule unrecognised_not_network)
  have e: "instanceofError e" "\<not> instanceofAbortError e"
    using assms(2) by (cases e; simp)+
  have "inner_try ?opts abort_at e 1 s = (Throws e, s)" for s
    using n e assms(2) by (simp add: inner_try_def)
  from first_attempt_fatal [where input = input and e = e and x = e, OF assms(1) this]
  have eq: "pRetry input options abort_at
         = reject (decorateErrorWithCounts e 1 ?opts)
             (cleanUp (dispatch ?opts abort_at (AwaitInput 1) (log (Invoke 1) (initial options))))" .
  have "invocations (trace (pRetry input options abort_at)) = [1]"
    by (simp add: eq)
  moreover have "\<exists>x. promise (pRetry input options abort_at) = Some (Rejected x)"
    using dispatch_initial_promise [of ?opts abort_at "AwaitInput 1" "Invoke 1" options]
    by (auto simp: eq)
  moreover have "promise (pRetry input options abort_at)
              = Some (Rejected (decorateErrorWithCounts e 1 ?opts))" if "abort_at = None"
    unfolding eq using that by simp
  ultimately show ?thesis by blast
qed

text \<open>The fixture of the repository's test "no retry on TypeError".\<close>

theorem type_error_not_retried_witness:
  "invocations (trace (pRetry (\<lambda>n. Throws bad_argument) no_options None)) = [1]
   \<and> promise (pRetry (\<lambda>n. Throws bad_argument) no_options None)
     = Some (Rejected (FailedAttemptError ''type-error-fixture'' bad_argument 1 10))"
  using type_error_not_retried [of "\<lambda>n. Throws bad_argument" bad_argument no_options None]
  by (simp add: bad_argument_def newTypeError_def errorMessages_def decorate_defaulted
      no_options_def budget_def)

text \<open>As stated, claim C2 fails: a \<^verbatim>\<open>TypeError\<close> whose message is exactly
  \<^verbatim>\<open>"Load failed"\<close>, one of the recognised strings, is fatal on the first attempt when it
  carries a stack (isNetworkError.ts, lines 218-220).\<close>

theorem load_failed_with_stack_is_fatal:
  "instanceofTypeError load_failed_with_stack
   \<and> message_of load_failed_with_stack = Some ''Load failed''
   \<and> ''Load failed'' \<in> set errorMessages
   \<and> trace (pRetry (\<lambda>n. Throws load_failed_with_stack) no_options None)
     = [Invoke 1, Reject (FailedAttemptError ''Load failed'' load_failed_with_stack 1 10)]"
  by (simp add: load_failed_with_stack_def no_options_def engine_defs run.simps)

text \<open>
  Claim C2, amended: a \<^verbatim>\<open>TypeError\<close> whose name is \<^verbatim>\<open>"TypeError"\<close>, whose message is
  exactly one of the recognised network-failure strings and which, when that message is
  \<^verbatim>\<open>"Load failed"\<close>, has no stack, is a retryable candidate: thrown on the first attempt,
  it reaches the predicate, which is called with the record of attempt 1, and when the
  predicate and the observer (if configured) approve and the budget is at least 1, a second
  attempt takes place (session without cancellation).
\<close>

theorem network_type_error_retried:
  assumes "input 1 = Throws e" and "instanceofTypeError e"
    and "name_of e = Some ''TypeError''" and "message_of e = Some m"
    and "m \<in> set errorMessages" and "m = ''Load failed'' \<longrightarrow> stack_of e = None"
  shows "candidate e
         \<and> ShouldRetry (decorateErrorWithCounts e 1 (defaultedOptions options))
             \<in> set (trace (pRetry input options None))
         \<and> ((\<forall>p. shouldRetry options = Some p \<longrightarrow>
                 p (decorateErrorWithCounts e 1 (defaultedOptions options)) = Returns True)
              \<and> (\<forall>g. onFailedAttempt options = Some g \<longrightarrow>
                 g (decorateErrorWithCounts e 1 (defaultedOptions options)) = Returns ())
              \<and> 1 \<le> budget options
              \<longrightarrow> 2 \<in> set (invocations (trace (pRetry input options None))))"
proof -
  let ?opts = "defaultedOptions options"
  let ?fae = "decorateErrorWithCounts e 1 ?opts"
  have net: "isNetworkError e" using assms(2-6) by (rule recognised_network_error)
  have c: "candidate e"
    using net assms(2) by (cases e) (simp_all add: candidate_def)
  obtain p where p: "shouldRetry ?opts = Some p" using shouldRetry_defaulted by blast
  have "ShouldRetry ?fae \<in> set (trace (attempt_callback input ?opts None 1 (initial options)))"
    using assms(1) c p by (rule candidate_consulted)
  moreover obtain evs where
    "trace (pRetry input options None)
     = trace (attempt_callback input ?opts None 1 (initial options)) @ evs"
  proof (cases "timer (attempt_callback input ?opts None 1 (initial options))")
    case False
    then show ?thesis using that [of "[]"] run_stops [of input ?opts None 1 "initial options"]
      by (simp add: pRetry_run)
  next
    case True
    then show ?thesis
      using that run_continues [OF True]
        run_prefix [of input ?opts None "Suc 1"
          "(attempt_callback input ?opts None 1 (initial options))\<lparr>timer := False\<rparr>"]
      by (auto simp: pRetry_run)
  qed
  ultimately have consulted: "ShouldRetry ?fae \<in> set (trace (pRetry input options None))"
    by simp
  have "2 \<in> set (invocations (trace (pRetry input options None)))"
    if ok: "\<forall>p. shouldRetry options = Some p \<longrightarrow> p ?fae = Returns True"
       "\<forall>g. onFailedAttempt options = Some g \<longrightarrow> g ?fae = Returns ()"
       "1 \<le> budget options"
  proof -
    have "\<forall>i. 1 \<le> i \<and> i < 2 \<longrightarrow> passes input ?opts i"
    proof (intro allI impI)
      fix i :: nat assume "1 \<le> i \<and> i < 2"
      then have "i = 1" by simp
      then show "passes input ?opts i"
        using assms(1) c ok(1,2) by (auto simp: passes_defaulted)
    qed
    moreover have "int 2 \<le> budget options + 1" using ok(3) by simp
    ultimately obtain s' where
      s': "pRetry input options None = run input ?opts None 2 s'"
      "invocations (trace s') = [1..<2]"
      using reach_attempt [of 2 input options] by auto
    from run_invocations [of 2 input ?opts None s'] obtain m where
      "2 \<le> m" "invocations (trace (run input ?opts None 2 s')) = invocations (trace s') @ [2..<Suc m]"
      by blast
    moreover from \<open>2 \<le> m\<close> have "2 \<in> set [2..<Suc m]" by auto
    ultimately show ?thesis unfolding s'(1) by (simp only: set_append Un_iff simp_thms)
  qed
  with c consulted show ?thesis by blast
qed

theorem network_type_error_retried_witness:
  "candidate failed_to_fetch
   \<and> ShouldRetry (FailedAttemptError ''Failed to fetch'' failed_to_fetch 1 10)
       \<in> set (trace (pRetry (\<lambda>n. Throws failed_to_fetch) no_options None))
   \<and> 2 \<in> set (invocations (trace (pRetry (\<lambda>n. Throws failed_to_fetch) no_options None)))"
  using network_type_error_retried
          [of "\<lambda>n. Throws failed_to_fetch" failed_to_fetch "''Failed to fetch''" no_options]
  by (simp add: failed_to_fetch_def newTypeError_def errorMessages_def decorate_defaulted
      no_options_def budget_def)


section \<open>A signal that is already aborted\<close>

text \<open>
  Claim C10: when the signal given in the options is already aborted at the call of
  \<^verbatim>\<open>pRetry\<close>, no abort listener is registered (line 129), and the whole session (the
  attempts, the calls of the callbacks, the outcome) is the one of the same call without a
  signal, wherever the environment would dispatch an abort event: the session is never
  rejected with the signal's reason.
\<close>

theorem aborted_signal_is_ignored:
  assumes "signal options = Some sg" and "aborted sg"
  shows "\<not> listener (addAbortListener (defaultedOptions options)
                        (operation (defaultedOptions options)))
         \<and> pRetry input options abort_at = pRetry input (options\<lparr>signal := None\<rparr>) abort_at
         \<and> pRetry input options abort_at = pRetry input (options\<lparr>signal := None\<rparr>) None"
proof -
  have d: "defaultedOptions (options\<lparr>signal := None\<rparr>) = (defaultedOptions options)\<lparr>signal := None\<rparr>"
    by (simp add: defaultedOptions_def)
  have i: "initial (options\<lparr>signal := None\<rparr>) = initial options"
    using assms by (simp add: initial_def d addAbortListener_def operation_def)
  have nl: "\<not> listener (initial options)"
    using assms by (simp add: initial_def addAbortListener_def operation_def)
  have "pRetry input options abort_at = pRetry input (options\<lparr>signal := None\<rparr>) a" for a
    using run_no_listener [OF nl, of input "defaultedOptions options" abort_at 1 None a]
    by (simp add: pRetry_run d i)
  then show ?thesis using nl by (simp add: initial_def)
qed

text \<open>With an aborted signal, the operation that fails twice still succeeds on attempt 3.\<close>

theorem aborted_signal_is_ignored_witness:
  "pRetry fails_twice with_aborted_signal (Some (AwaitInput 2)) = pRetry fails_twice no_options None
   \<and> promise (pRetry fails_twice with_aborted_signal (Some (AwaitInput 2)))
     = Some (Resolved (NonError ''ok'' None))"
proof -
  have s: "signal with_aborted_signal = Some aborted_signal" "aborted aborted_signal"
    "with_aborted_signal\<lparr>signal := None\<rparr> = no_options"
    by (simp_all add: with_aborted_signal_def aborted_signal_def no_options_def)
  have "pRetry fails_twice with_aborted_signal (Some (AwaitInput 2))
        = pRetry fails_twice no_options None"
    using aborted_signal_is_ignored [OF s(1,2), of fails_twice "Some (AwaitInput 2)"]
    unfolding s(3) by blast
  moreover have "promise (pRetry fails_twice no_options None) = Some (Resolved (NonError ''ok'' None))"
    by (simp add: fails_twice_def no_options_def boom_def engine_defs run.simps)
  ultimately show ?thesis by simp
qed


section \<open>Settlement\<close>



section \<open>Attempt counts\<close>

text \<open>
  Claim C8: every record that \<^verbatim>\<open>shouldRetry\<close> or \<^verbatim>\<open>onFailedAttempt\<close> receives during
  the \<open>n\<close>-th invocation of the operation has \<^verbatim>\<open>attemptNumber\<close> \<open>n\<close> and
  \<^verbatim>\<open>retriesLeft\<close> equal to the configured or defaulted budget minus \<open>n - 1\<close>; its cause is
  the error thrown by that invocation. (\<open>observed\<close> pairs each record with the number of
  invocations made when it is handed over.)
\<close>

theorem records_carry_attempt_counts:
  "\<forall>(n, f) \<in> set (observed 0 (trace (pRetry input options abort_at))).
     attemptNumber f = n \<and> retriesLeft f = budget options - (int n - 1)
     \<and> input n = Throws (cause f)"
proof -
  have "\<forall>(n, f) \<in> set (observed 0 (trace (pRetry input options abort_at))).
          attempt_record input (defaultedOptions options) n f"
    unfolding pRetry_run by (rule run_observed) simp_all
  moreover have "attemptNumber f = n \<and> retriesLeft f = budget options - (int n - 1)
     \<and> input n = Throws (cause f)" if "attempt_record input (defaultedOptions options) n f" for n f
  proof -
    from that have "f = decorateErrorWithCounts (cause f) n (defaultedOptions options)"
      and i: "input n = Throws (cause f)"
      by (simp_all add: attempt_record_def)
    then have "f = FailedAttemptError (case message_of (cause f) of None \<Rightarrow> [] | Some m \<Rightarrow> m)
                     (cause f) n (budget options - (int n - 1))"
      by (simp add: decorate_defaulted)
    then obtain a b where "f = FailedAttemptError a b n (budget options - (int n - 1))"
      by blast
    then have "attemptNumber f = n \<and> retriesLeft f = budget options - (int n - 1)"
      by simp
    with i show ?thesis by simp
  qed
  ultimately show ?thesis by blast
qed

theorem records_carry_attempt_counts_witness:
  "(2, FailedAttemptError ''boom'' boom 2 9)
     \<in> set (observed 0 (trace (pRetry fails_twice no_options None)))
   \<and> attemptNumber (FailedAttemptError ''boom'' boom 2 9) = 2
   \<and> retriesLeft (FailedAttemptError ''boom'' boom 2 9) = budget no_options - (int 2 - 1)
   \<and> fails_twice 2 = Throws (cause (FailedAttemptError ''boom'' boom 2 9))"
proof -
  have m: "(2, FailedAttemptError ''boom'' boom 2 9)
     \<in> set (observed 0 (trace (pRetry fails_twice no_options None)))"
    by (simp add: fails_twice_def no_options_def boom_def engine_defs run.simps)
  with records_carry_attempt_counts [of fails_twice no_options None] show ?thesis
    by blast
qed

end
